theory Spec2Isabelle
  imports Main "HOL-Library.Sublist" "HOL-Library.Multiset"
begin

section \<open>Data model of the webhook receiver (index.js)\<close>

text \<open>
  The server keeps three MongoDB collections (\<open>endpoints\<close>, \<open>requests\<close>,
  \<open>userSettings\<close>), the Socket.IO rooms, and it talks to three kinds of peers: HTTP
  callers, sockets and the mail transport. Everything the handlers read or write is a field
  of \<open>state\<close>; what they send out is appended to a log (\<open>emitted\<close>,
  \<open>responses\<close>, \<open>mails\<close>).

  An ObjectId is modelled by a natural number (only its identity and the order of its
  value are used), a \<open>Date\<close> by its milliseconds since the epoch.
\<close>

type_synonym eid = string
type_synonym sock = nat
type_synonym objectId = nat
type_synonym date = int
type_synonym fields = "(string \<times> string) list"

text \<open>A document of \<open>endpoints\<close>; the collection is keyed by \<open>_id\<close>
  (MongoDB's unique primary key), so it is a map from \<open>_id\<close> to the other fields.\<close>

record endpoint =
  name :: "string option"
  createdAt :: date
  createdBy :: "string option"

text \<open>A document of \<open>requests\<close>: \<open>data\<close> of \<open>app.all('/:id')\<close> with the
  \<open>_id\<close> the driver assigned.\<close>

record request =
  rid :: objectId
  endpointId :: eid
  method' :: string
  headers :: fields
  body :: string
  query :: fields
  timestamp :: date

text \<open>What a socket receives for one request: the object literal of \<open>new_request\<close> and
  of \<open>formattedRequests\<close> (no \<open>endpointId\<close>).\<close>

record payload =
  p_id :: objectId
  p_method :: string
  p_headers :: fields
  p_body :: string
  p_query :: fields
  p_timestamp :: date

text \<open>A document of \<open>userSettings\<close>; \<open>$set\<close> with upsert can leave either
  field absent.\<close>

record setting =
  userId :: string
  emailNotifications :: "bool option"
  notificationEmail :: "string option"

text \<open>\<open>req.user\<close>, the verified payload of the Google token.\<close>

record user =
  sub :: string
  email :: "string option"

text \<open>
  One inbound HTTP request whose path is a single segment \<open>/<id>\<close>, with the answers
  the environment gives while it is handled: \<open>now\<close> is what \<open>new Date()\<close>
  returns, \<open>insertedId\<close> the \<open>_id\<close> the driver assigns, \<open>origin\<close> is
  \<open>protocol://host\<close>, and \<open>conn\<close> names the connection the response goes to.

  Two more answers come from Express, before \<open>app.all('/:id')\<close> is called:
  \<^item> \<open>refusal\<close>: the status with which \<open>express.json()\<close>,
    \<open>express.urlencoded()\<close> or the decoding of the path parameter refuse the request
    (400 for a JSON body that does not parse or a malformed escape in the path, 413 for
    a body over the size limit); Express then answers with that status and calls no
    handler. \<open>None\<close> when the request is accepted.
  \<^item> \<open>earlier_route\<close>: the request matches \<open>app.post('/new')\<close> or
    \<open>app.get('/endpoints')\<close>, which are registered before \<open>app.all('/:id')\<close> and
    answer the request themselves (\<open>POST /new\<close>, \<open>GET\<close> or \<open>HEAD /endpoints\<close>;
    Express compares the path without regard to case).
\<close>

record webhook =
  conn :: nat
  params_id :: eid
  req_method :: string
  req_headers :: fields
  req_body :: string
  req_query :: fields
  now :: date
  insertedId :: objectId
  origin :: string
  refusal :: "nat option"
  earlier_route :: bool

record mail =
  mail_to :: string
  mail_endpointName :: string
  mail_endpointId :: eid
  mail_endpointUrl :: string
  mail_method :: string
  mail_headers :: fields
  mail_query :: fields
  mail_body :: string
  mail_timestamp :: date

datatype event =
    NewRequest payload
  | InitRequests "payload list"
  | ErrorEvent string

text \<open>
  The answers to HTTP callers. \<open>NoContent\<close> is the 204 of \<open>cors()\<close> to an
  \<open>OPTIONS\<close> request, \<open>Rejected\<close> the answer of Express to a request it refuses,
  with its status, \<open>Elsewhere\<close> the answer of one of the two routes registered before
  \<open>app.all('/:id')\<close>; the others are the answers of the handlers modelled below.
\<close>

datatype response =
    Received
  | Redirect objectId
  | NotFound
  | ServerError
  | Unauthorized
  | BadRequest
  | Success
  | Saved string
  | NoContent
  | Rejected nat
  | Elsewhere

text \<open>
  The argument of a \<open>join\<close> event is whatever JSON value the client sends; the handler
  puts it into the filters \<open>{ _id: endpointId }\<close> and \<open>{ endpointId }\<close> without
  looking at its type. \<open>Text e\<close> is a string. \<open>Operator P\<close> is an object of query
  operators, such as \<open>{ $ne: null }\<close>, given by the condition \<open>P\<close> it puts on a
  string field. \<open>Other\<close> is any other value (a number, a boolean, \<open>null\<close>, an
  array, an object without operators): no string field equals it. The \<open>_id\<close> of an
  endpoint and the \<open>endpointId\<close> of a request are strings. \<open>matches a x\<close> says
  that a field of value \<open>x\<close> satisfies the filter made of \<open>a\<close>.
\<close>

datatype argument =
    Text string
  | Operator "string \<Rightarrow> bool"
  | Other

fun matches :: "argument \<Rightarrow> string \<Rightarrow> bool" where
  "matches (Text e) x = (x = e)"
| "matches (Operator P) x = P x"
| "matches Other x = False"

record state =
  endpointsCollection :: "eid \<rightharpoonup> endpoint"
  requestsCollection :: "request list"
  userSettings :: "setting list"
  rooms :: "eid \<Rightarrow> sock list"
  emitted :: "(sock \<times> event) list"
  responses :: "(nat \<times> response) list"
  transporter :: bool
  mails :: "mail list"

text \<open>The arguments of \<open>sendWebhookNotification\<close>: \<open>endpointId\<close>,
  \<open>requestData\<close> and \<open>req\<close> are all taken from the webhook being handled.\<close>

record notification =
  creatorEmail :: string
  about :: webhook
  googleUserId :: "string option"

section \<open>JavaScript helpers\<close>

text \<open>\<open>s.includes(sub)\<close>.\<close>

fun js_includes :: "string \<Rightarrow> string \<Rightarrow> bool" where
  "js_includes [] t = (t = [])"
| "js_includes (c # cs) t = (prefix t (c # cs) \<or> js_includes cs t)"

text \<open>Truthiness of a string that may be undefined, and \<open>a || b\<close>.\<close>

definition truthy :: "string option \<Rightarrow> bool" where
  "truthy v = (case v of None \<Rightarrow> False | Some x \<Rightarrow> x \<noteq> [])"

definition or_else :: "string option \<Rightarrow> string \<Rightarrow> string" where
  "or_else v d = (case v of None \<Rightarrow> d | Some x \<Rightarrow> if x = [] then d else x)"

section \<open>Store and socket operations\<close>

text \<open>\<open>data\<close> as inserted: the fields of the request, the clock reading and the
  assigned \<open>_id\<close>.\<close>

definition data :: "webhook \<Rightarrow> request" where
  "data rq = \<lparr>rid = insertedId rq, endpointId = params_id rq, method' = req_method rq,
     headers = req_headers rq, body = req_body rq, query = req_query rq,
     timestamp = now rq\<rparr>"

definition formatted :: "request \<Rightarrow> payload" where
  "formatted r = \<lparr>p_id = rid r, p_method = method' r, p_headers = headers r,
     p_body = body r, p_query = query r, p_timestamp = timestamp r\<rparr>"

text \<open>\<open>endpointsCollection.findOne({ _id: endpointId })\<close> of the join handler, of
  which only \<open>if (!endpointExists)\<close> is used: some endpoint satisfies the filter.\<close>

definition endpointExists :: "argument \<Rightarrow> (eid \<rightharpoonup> endpoint) \<Rightarrow> bool" where
  "endpointExists a m = (\<exists>e\<in>dom m. matches a e)"

text \<open>\<open>requestsCollection.find({ endpointId }).sort({ timestamp: -1 }).limit(100).toArray()\<close>.
  The store does not say in which order it returns documents of equal timestamp; here they
  keep their insertion order.\<close>

definition recentRequests :: "argument \<Rightarrow> request list \<Rightarrow> request list" where
  "recentRequests a rs =
     take 100 (sort_key (\<lambda>r. - timestamp r) (filter (\<lambda>r. matches a (endpointId r)) rs))"

text \<open>\<open>updateOne({ userId: key }, { $set: ... }, { upsert: true })\<close>: the first
  document with that key is updated; without one, a document with the key and the set
  fields is inserted.\<close>

fun updateOne :: "string \<Rightarrow> (setting \<Rightarrow> setting) \<Rightarrow> setting list \<Rightarrow> setting list" where
  "updateOne key upd [] =
     [upd \<lparr>userId = key, emailNotifications = None, notificationEmail = None\<rparr>]"
| "updateOne key upd (d # ds) =
     (if userId d = key then upd d # ds else d # updateOne key upd ds)"

text \<open>\<open>[req.user.sub, req.user.email].filter(Boolean)\<close>.\<close>

definition identities :: "user \<Rightarrow> string list" where
  "identities u =
     filter (\<lambda>k. k \<noteq> []) (sub u # (case email u of None \<Rightarrow> [] | Some m \<Rightarrow> [m]))"

definition emit :: "sock \<Rightarrow> event \<Rightarrow> state \<Rightarrow> state" where
  "emit k ev s = s\<lparr>emitted := emitted s @ [(k, ev)]\<rparr>"

text \<open>\<open>io.to(id).emit(...)\<close>: one event for every socket in the room.\<close>

definition broadcast :: "eid \<Rightarrow> event \<Rightarrow> state \<Rightarrow> state" where
  "broadcast e ev s = s\<lparr>emitted := emitted s @ map (\<lambda>k. (k, ev)) (rooms s e)\<rparr>"

text \<open>\<open>socket.join(endpointId)\<close> for a string: a room is a set, joining twice changes
  nothing. The rooms kept here are the ones named by strings, because \<open>io.to(id)\<close> of the
  webhook handler always names a string (\<open>req.params.id\<close>): a join whose argument is
  not a string enters a room that no broadcast of the file reaches.\<close>

definition socket_join :: "sock \<Rightarrow> eid \<Rightarrow> state \<Rightarrow> state" where
  "socket_join k e s =
     (if k \<in> set (rooms s e) then s else s\<lparr>rooms := (rooms s)(e := rooms s e @ [k])\<rparr>)"

definition respond :: "nat \<Rightarrow> response \<Rightarrow> state \<Rightarrow> state" where
  "respond c r s = s\<lparr>responses := responses s @ [(c, r)]\<rparr>"

text \<open>The end of \<open>app.all('/:id')\<close>: a browser GET is redirected, everything else
  gets \<open>200 Received\<close>.\<close>

definition userAgent :: "webhook \<Rightarrow> string" where
  "userAgent rq = or_else (map_of (req_headers rq) ''user-agent'') []"

definition reply :: "webhook \<Rightarrow> response" where
  "reply rq =
     (if req_method rq = ''GET'' \<and> js_includes (userAgent rq) ''Mozilla''
      then Redirect (insertedId rq) else Received)"

text \<open>\<open>mailOptions\<close>: the address and the values interpolated into the message.\<close>

definition mailOptions :: "notification \<Rightarrow> string \<Rightarrow> endpoint option \<Rightarrow> mail" where
  "mailOptions n addr ep =
     \<lparr>mail_to = addr,
      mail_endpointName =
        or_else (case ep of None \<Rightarrow> None | Some x \<Rightarrow> name x) (params_id (about n)),
      mail_endpointId = params_id (about n),
      mail_endpointUrl = origin (about n) @ ''/'' @ params_id (about n),
      mail_method = req_method (about n),
      mail_headers = req_headers (about n),
      mail_query = req_query (about n),
      mail_body = req_body (about n),
      mail_timestamp = now (about n)\<rparr>"

section \<open>Handlers as tasks\<close>

text \<open>
  A handler is an \<open>async\<close> function: it runs until it awaits the store or the
  transport, and other handlers run in between. A task is a handler at one of its
  suspension points, with the local variables it holds, and a step is what happens
  atomically:
  \<^item> in the join handler and in the webhook handler, which touch the rooms and the
    sockets when they resume, the store carrying out the awaited operation is one step
    and the handler resuming with the result is the next one;
  \<^item> in \<open>sendWebhookNotification\<close>, the delete handler and the handler of
    \<open>/api/notifications/email\<close>, which resume only to answer the caller or to issue
    the next operation, the operation and the resumption are one step.

  The flag of a step says whether the awaited operation succeeds (\<open>False\<close>: it
  throws, and the handler's \<open>catch\<close> runs); a step that only resumes ignores it.
  Sockets never leave a room: the file has no leave or disconnect handler.

  \<^descr>[\<open>Join\<close>] \<open>socket.on('join')\<close> called with an argument;
    \<open>endpointsCollection.findOne\<close> is awaited.
  \<^descr>[\<open>JoinFound\<close>] the lookup has returned; next is the not-found error or
    \<open>socket.join\<close>.
  \<^descr>[\<open>JoinRead\<close>] the socket is in the room; \<open>find(...).toArray()\<close> is awaited.
  \<^descr>[\<open>JoinSend\<close>] the snapshot has been read; next is \<open>emit('init_requests')\<close>.
  \<^descr>[\<open>JoinFail\<close>] a store operation of the join has thrown; next is the error event.
  \<^descr>[\<open>Arrive\<close>] an HTTP request with a one-segment path has reached the server;
    next are \<open>cors()\<close>, the body parsers and the routes, in the order of the file.
  \<^descr>[\<open>Ingest\<close>] \<open>app.all('/:id')\<close> called; \<open>endpointsCollection.findOne\<close> is awaited.
  \<^descr>[\<open>IngestFound\<close>] the lookup has returned; next is the 404 or building \<open>data\<close>.
  \<^descr>[\<open>IngestInsert\<close>] \<open>requestsCollection.insertOne(data)\<close> is awaited.
  \<^descr>[\<open>IngestEmit\<close>] the insert has succeeded; next are the broadcast, the call of
    \<open>sendWebhookNotification\<close> (not awaited) and the response.
  \<^descr>[\<open>IngestFail\<close>] a store operation of the webhook handler has thrown; next is the 500.
  \<^descr>[\<open>NotifyBySub\<close>, \<open>NotifyByAddress\<close>, \<open>NotifyByKey\<close>] the three
    \<open>userSettings.findOne\<close> of \<open>sendWebhookNotification\<close>, by \<open>userId: googleUserId\<close>,
    by \<open>notificationEmail: creatorEmail\<close> and by \<open>userId: creatorEmail\<close>.
  \<^descr>[\<open>NotifyEndpoint\<close>] notifications are enabled and the address is chosen;
    \<open>endpointsCollection.findOne\<close> is awaited, then \<open>sendMail\<close> is called.
  \<^descr>[\<open>NotifySend\<close>] \<open>transporter.sendMail\<close> is awaited.
  \<^descr>[\<open>Delete\<close>, \<open>DeleteMany\<close>] \<open>app.delete('/endpoints/:id')\<close> with the result of
    the token check, at \<open>deleteOne\<close> and at \<open>deleteMany\<close>.
  \<^descr>[\<open>SetEmail\<close>, \<open>SetEmailSub\<close>, \<open>SetEmailKey\<close>]
    \<open>app.post('/api/notifications/email')\<close> with the result of the token check and the
    posted \<open>email\<close> (a string, or absent), at \<open>deleteMany\<close>, at the \<open>updateOne\<close> for
    \<open>req.user.sub\<close> and at the \<open>updateOne\<close> for \<open>req.user.email\<close>.
\<close>

datatype task =
    Join sock argument
  | JoinFound sock argument bool
  | JoinRead sock argument
  | JoinSend sock argument "request list"
  | JoinFail sock
  | Arrive webhook
  | Ingest webhook
  | IngestFound webhook "endpoint option"
  | IngestInsert webhook endpoint
  | IngestEmit webhook endpoint
  | IngestFail webhook
  | NotifyBySub notification
  | NotifyByAddress notification
  | NotifyByKey notification
  | NotifyEndpoint notification string
  | NotifySend notification
  | Delete nat "user option" eid
  | DeleteMany nat eid
  | SetEmail nat "user option" "string option"
  | SetEmailSub nat user string
  | SetEmailKey nat string string
  | Finished

text \<open>\<open>sendWebhookNotification\<close> up to its first \<open>await\<close>.\<close>

definition sendWebhookNotification :: "notification \<Rightarrow> task" where
  "sendWebhookNotification n =
     (if truthy (googleUserId n) then NotifyBySub n else NotifyByAddress n)"

text \<open>After the lookups: \<open>if (!userSettings?.emailNotifications) return\<close>, else the
  address is \<open>userSettings.notificationEmail || creatorEmail\<close>.\<close>

definition resolved :: "notification \<Rightarrow> setting option \<Rightarrow> task" where
  "resolved n found =
     (case found of
        None \<Rightarrow> Finished
      | Some us \<Rightarrow>
          if emailNotifications us = Some True
          then NotifyEndpoint n (or_else (notificationEmail us) (creatorEmail n))
          else Finished)"

text \<open>
  One step of a task: the task it becomes and the state it leaves. The store keeps
  \<open>_id\<close> unique in a collection, so \<open>insertOne\<close> throws (duplicate key) when the
  identifier the driver assigned is already present in \<open>requests\<close>.

  \<open>cors()\<close> with its default options ends every \<open>OPTIONS\<close> request with 204 and
  hands every other request on. What \<open>app.post('/new')\<close> and \<open>app.get('/endpoints')\<close>
  do with a request they take is not followed further (they read and write the endpoints
  only): the task ends with the answer \<open>Elsewhere\<close>.
\<close>

fun exec :: "bool \<Rightarrow> task \<Rightarrow> state \<Rightarrow> task \<times> state" where
  "exec ok (Join k a) s =
     (if ok then (JoinFound k a (endpointExists a (endpointsCollection s)), s)
      else (JoinFail k, s))"
| "exec ok (JoinFound k a found) s =
     (if found
      then (JoinRead k a, case a of Text e \<Rightarrow> socket_join k e s | _ \<Rightarrow> s)
      else (Finished, emit k (ErrorEvent ''Endpoint not found'') s))"
| "exec ok (JoinRead k a) s =
     (if ok then (JoinSend k a (recentRequests a (requestsCollection s)), s)
      else (JoinFail k, s))"
| "exec ok (JoinSend k a xs) s = (Finished, emit k (InitRequests (map formatted xs)) s)"
| "exec ok (JoinFail k) s = (Finished, emit k (ErrorEvent ''Internal server error'') s)"
| "exec ok (Arrive rq) s =
     (if req_method rq = ''OPTIONS'' then (Finished, respond (conn rq) NoContent s)
      else case refusal rq of
             Some status \<Rightarrow> (Finished, respond (conn rq) (Rejected status) s)
           | None \<Rightarrow>
               if earlier_route rq then (Finished, respond (conn rq) Elsewhere s)
               else (Ingest rq, s))"
| "exec ok (Ingest rq) s =
     (if ok then (IngestFound rq (endpointsCollection s (params_id rq)), s)
      else (IngestFail rq, s))"
| "exec ok (IngestFound rq found) s =
     (case found of
        None \<Rightarrow> (Finished, respond (conn rq) NotFound s)
      | Some ep \<Rightarrow> (IngestInsert rq ep, s))"
| "exec ok (IngestInsert rq ep) s =
     (if ok \<and> insertedId rq \<notin> rid ` set (requestsCollection s)
      then (IngestEmit rq ep, s\<lparr>requestsCollection := requestsCollection s @ [data rq]\<rparr>)
      else (IngestFail rq, s))"
| "exec ok (IngestEmit rq ep) s =
     (if truthy (createdBy ep)
      then sendWebhookNotification
             \<lparr>creatorEmail = or_else (createdBy ep) [], about = rq, googleUserId = None\<rparr>
      else Finished,
      respond (conn rq) (reply rq)
        (broadcast (params_id rq) (NewRequest (formatted (data rq))) s))"
| "exec ok (IngestFail rq) s = (Finished, respond (conn rq) ServerError s)"
| "exec ok (NotifyBySub n) s =
     (if ok
      then (case find (\<lambda>d. Some (userId d) = googleUserId n) (userSettings s) of
              None \<Rightarrow> (NotifyByAddress n, s)
            | Some us \<Rightarrow> (resolved n (Some us), s))
      else (Finished, s))"
| "exec ok (NotifyByAddress n) s =
     (if ok
      then (case find (\<lambda>d. notificationEmail d = Some (creatorEmail n)) (userSettings s) of
              None \<Rightarrow> (NotifyByKey n, s)
            | Some us \<Rightarrow> (resolved n (Some us), s))
      else (Finished, s))"
| "exec ok (NotifyByKey n) s =
     (if ok then (resolved n (find (\<lambda>d. userId d = creatorEmail n) (userSettings s)), s)
      else (Finished, s))"
| "exec ok (NotifyEndpoint n addr) s =
     (if ok \<and> transporter s
      then (NotifySend n,
            s\<lparr>mails := mails s @
                 [mailOptions n addr (endpointsCollection s (params_id (about n)))]\<rparr>)
      else (Finished, s))"
| "exec ok (NotifySend n) s = (Finished, s)"
| "exec ok (Delete c auth e) s =
     (case auth of
        None \<Rightarrow> (Finished, respond c Unauthorized s)
      | Some u \<Rightarrow>
          if ok
          then (DeleteMany c e, s\<lparr>endpointsCollection := (endpointsCollection s)(e := None)\<rparr>)
          else (Finished, respond c ServerError s))"
| "exec ok (DeleteMany c e) s =
     (if ok
      then (Finished,
            respond c Success
              (s\<lparr>requestsCollection := filter (\<lambda>r. endpointId r \<noteq> e) (requestsCollection s)\<rparr>))
      else (Finished, respond c ServerError s))"
| "exec ok (SetEmail c auth posted) s =
     (case auth of
        None \<Rightarrow> (Finished, respond c Unauthorized s)
      | Some u \<Rightarrow>
          (case posted of
             None \<Rightarrow> (Finished, respond c BadRequest s)
           | Some a \<Rightarrow>
               if a = [] \<or> \<not> js_includes a ''@'' then (Finished, respond c BadRequest s)
               else if ok
               then (SetEmailSub c u a,
                     s\<lparr>userSettings :=
                         filter (\<lambda>d. \<not> (userId d \<in> set (identities u)
                                          \<and> notificationEmail d \<noteq> Some a))
                           (userSettings s)\<rparr>)
               else (Finished, respond c ServerError s)))"
| "exec ok (SetEmailSub c u a) s =
     (if ok
      then (let s' = s\<lparr>userSettings :=
                        updateOne (sub u) (\<lambda>d. d\<lparr>notificationEmail := Some a\<rparr>)
                          (userSettings s)\<rparr>
            in case email u of
                 None \<Rightarrow> (Finished, respond c (Saved a) s')
               | Some m \<Rightarrow>
                   if m \<noteq> [] \<and> m \<noteq> sub u then (SetEmailKey c m a, s')
                   else (Finished, respond c (Saved a) s'))
      else (Finished, respond c ServerError s))"
| "exec ok (SetEmailKey c m a) s =
     (if ok
      then (Finished,
            respond c (Saved a)
              (s\<lparr>userSettings :=
                  updateOne m (\<lambda>d. d\<lparr>notificationEmail := Some a\<rparr>) (userSettings s)\<rparr>))
      else (Finished, respond c ServerError s))"
| "exec ok Finished s = (Finished, s)"

text \<open>
  The server is a state and a pool of tasks. A schedule names, step by step, which task
  moves and whether its awaited operation succeeds; \<open>run\<close> carries a schedule out.
  \<open>solo\<close> runs one handler with nothing else in between.
\<close>

type_synonym config = "state \<times> task list"

fun step :: "nat \<times> bool \<Rightarrow> config \<Rightarrow> config" where
  "step (i, ok) (s, ts) =
     (if i < length ts
      then (case exec ok (ts ! i) s of (t', s') \<Rightarrow> (s', ts[i := t']))
      else (s, ts))"

definition run :: "(nat \<times> bool) list \<Rightarrow> config \<Rightarrow> config" where
  "run sched c = fold step sched c"

definition solo :: "bool list \<Rightarrow> task \<Rightarrow> state \<Rightarrow> config" where
  "solo oks t s = run (map (Pair 0) oks) (s, [t])"

section \<open>Auxiliary notions for the proofs\<close>

text \<open>The tasks of \<open>sendWebhookNotification\<close>: whatever they do, they leave the
  responses, the stored requests and the socket events alone.\<close>

fun notifying :: "task \<Rightarrow> bool" where
  "notifying (NotifyBySub n) = True"
| "notifying (NotifyByAddress n) = True"
| "notifying (NotifyByKey n) = True"
| "notifying (NotifyEndpoint n a) = True"
| "notifying (NotifySend n) = True"
| "notifying Finished = True"
| "notifying _ = False"

text \<open>How many steps a task of \<open>sendWebhookNotification\<close> has left at most.\<close>

fun steps_left :: "task \<Rightarrow> nat" where
  "steps_left (NotifyBySub n) = 5"
| "steps_left (NotifyByAddress n) = 4"
| "steps_left (NotifyByKey n) = 3"
| "steps_left (NotifyEndpoint n a) = 2"
| "steps_left (NotifySend n) = 1"
| "steps_left _ = 0"

text \<open>
  The resolution order of the notification setting in the spec's words (section 4.4),
  first match wins: (1) by the explicit subject identifier, if one is supplied; (2) the
  setting whose \<open>notificationEmail\<close> equals the endpoint's owner key; (3) the setting
  keyed by the owner key. It is compared with the task model of
  \<open>sendWebhookNotification\<close> below.
\<close>

definition resolution :: "string option \<Rightarrow> string \<Rightarrow> setting list \<Rightarrow> setting option" where
  "resolution subject owner settings =
     (case (if truthy subject then find (\<lambda>d. Some (userId d) = subject) settings else None) of
        Some us \<Rightarrow> Some us
      | None \<Rightarrow>
          (case find (\<lambda>d. notificationEmail d = Some owner) settings of
             Some us \<Rightarrow> Some us
           | None \<Rightarrow> find (\<lambda>d. userId d = owner) settings))"

text \<open>The mails handed to the transport once the lookups have ended with \<open>found\<close>.\<close>

definition dispatched :: "notification \<Rightarrow> setting option \<Rightarrow> state \<Rightarrow> mail list" where
  "dispatched n found s =
     (case found of
        None \<Rightarrow> []
      | Some us \<Rightarrow>
          if emailNotifications us = Some True \<and> transporter s
          then [mailOptions n (or_else (notificationEmail us) (creatorEmail n))
                  (endpointsCollection s (params_id (about n)))]
          else [])"

text \<open>\<open>{ $set: { notificationEmail: email } }\<close>, the row the upsert inserts when no
  row has the key, and the settings after the \<open>deleteMany\<close> of
  \<open>POST /api/notifications/email\<close>.\<close>

abbreviation set_address :: "string \<Rightarrow> setting \<Rightarrow> setting" where
  "set_address a \<equiv> (\<lambda>d. d\<lparr>notificationEmail := Some a\<rparr>)"

definition fresh :: "string \<Rightarrow> string \<Rightarrow> setting" where
  "fresh key a = \<lparr>userId = key, emailNotifications = None, notificationEmail = Some a\<rparr>"

definition cleaned :: "user \<Rightarrow> string \<Rightarrow> setting list \<Rightarrow> setting list" where
  "cleaned u a ds =
     filter (\<lambda>d. \<not> (userId d \<in> set (identities u) \<and> notificationEmail d \<noteq> Some a)) ds"


text \<open>
  What a socket \<open>k\<close> has been sent of a stored request \<open>r\<close>: \<open>live\<close>, the
  \<open>new_request\<close> event of \<open>r\<close>; \<open>caught_up\<close>, an \<open>init_requests\<close> event that
  either contains \<open>r\<close> or is full (100 records) with records at least as new as
  \<open>r\<close>; \<open>told_failure\<close>, the error event of a join whose store read failed.
\<close>

definition live :: "sock \<Rightarrow> request \<Rightarrow> state \<Rightarrow> bool" where
  "live k r s = ((k, NewRequest (formatted r)) \<in> set (emitted s))"

definition covers :: "payload list \<Rightarrow> request \<Rightarrow> bool" where
  "covers ps r =
     (formatted r \<in> set ps \<or> (length ps = 100 \<and> (\<forall>p\<in>set ps. timestamp r \<le> p_timestamp p)))"

definition caught_up :: "sock \<Rightarrow> request \<Rightarrow> state \<Rightarrow> bool" where
  "caught_up k r s = (\<exists>ps. (k, InitRequests ps) \<in> set (emitted s) \<and> covers ps r)"

definition told_failure :: "sock \<Rightarrow> state \<Rightarrow> bool" where
  "told_failure k s = ((k, ErrorEvent ''Internal server error'') \<in> set (emitted s))"

text \<open>Work still in the pool: an ingest that has stored \<open>r\<close> and has not broadcast it
  yet; a join of \<open>k\<close> on the endpoint named by the string \<open>e\<close> that is in the room
  and has not sent its snapshot yet.\<close>

definition pending :: "request \<Rightarrow> task list \<Rightarrow> bool" where
  "pending r ts = (\<exists>rq ep. IngestEmit rq ep \<in> set ts \<and> data rq = r)"

definition joining :: "sock \<Rightarrow> eid \<Rightarrow> task list \<Rightarrow> bool" where
  "joining k e ts =
     (JoinRead k (Text e) \<in> set ts \<or> (\<exists>xs. JoinSend k (Text e) xs \<in> set ts))"

text \<open>
  The invariant of the join and ingest handlers, for the rooms named by strings. A join
  that waits for its snapshot read is in the room already. A join that holds its snapshot is in the room, and every stored
  request of the endpoint is covered by the snapshot, or was broadcast to the socket, or
  is about to be broadcast. And for every member of a room: its join is still under way,
  or it fails or has failed with an error event, or every stored request of the endpoint
  was sent to the member in a snapshot or live, or is about to be broadcast.
\<close>

definition consistent :: "config \<Rightarrow> bool" where
  "consistent c =
     (case c of (s, ts) \<Rightarrow>
        (\<forall>k e. JoinRead k (Text e) \<in> set ts \<longrightarrow> k \<in> set (rooms s e))
      \<and> (\<forall>k e xs. JoinSend k (Text e) xs \<in> set ts \<longrightarrow>
            k \<in> set (rooms s e)
            \<and> (\<forall>r\<in>set (requestsCollection s). endpointId r = e \<longrightarrow>
                  covers (map formatted xs) r \<or> live k r s \<or> pending r ts))
      \<and> (\<forall>k e. k \<in> set (rooms s e) \<longrightarrow>
            joining k e ts \<or> JoinFail k \<in> set ts \<or> told_failure k s
            \<or> (\<forall>r\<in>set (requestsCollection s). endpointId r = e \<longrightarrow>
                  caught_up k r s \<or> live k r s \<or> pending r ts)))"

text \<open>A handler that has not started: the pool a run starts from holds such tasks.\<close>

fun unstarted :: "task \<Rightarrow> bool" where
  "unstarted (Join k a) = True"
| "unstarted (Arrive rq) = True"
| "unstarted (Ingest rq) = True"
| "unstarted (Delete c auth e) = True"
| "unstarted (SetEmail c auth posted) = True"
| "unstarted Finished = True"
| "unstarted _ = False"

text \<open>
  Tracing deliveries back, for a run that starts with the stored requests \<open>R0\<close> and a
  pool holding the webhooks \<open>W\<close>. A record is \<open>known\<close> when it was stored at the
  start or is the record of a webhook of the pool. A payload is \<open>addressed\<close> to socket
  \<open>k\<close> when it is a known record whose endpoint's room \<open>k\<close> is in.
  \<open>event_traced\<close> says so of every record an event carries. \<open>task_traced\<close> says
  what a task at a suspension point holds: the webhook of an ingest is one of the pool,
  the argument of a join is no operator object, a join past its room entry has a string
  as its argument and is in the room of that name, and a snapshot held by a join consists
  of known records of the joined endpoint.
\<close>

definition known :: "request set \<Rightarrow> webhook set \<Rightarrow> request \<Rightarrow> bool" where
  "known R0 W r = (r \<in> R0 \<or> (\<exists>rq\<in>W. r = data rq))"

definition addressed :: "request set \<Rightarrow> webhook set \<Rightarrow> state \<Rightarrow> sock \<Rightarrow> payload \<Rightarrow> bool" where
  "addressed R0 W s k p =
     (\<exists>r. known R0 W r \<and> p = formatted r \<and> k \<in> set (rooms s (endpointId r)))"

fun event_traced :: "request set \<Rightarrow> webhook set \<Rightarrow> state \<Rightarrow> sock \<times> event \<Rightarrow> bool" where
  "event_traced R0 W s (k, NewRequest p) = addressed R0 W s k p"
| "event_traced R0 W s (k, InitRequests ps) = (\<forall>p\<in>set ps. addressed R0 W s k p)"
| "event_traced R0 W s (k, ErrorEvent m) = True"

fun task_traced :: "request set \<Rightarrow> webhook set \<Rightarrow> state \<Rightarrow> task \<Rightarrow> bool" where
  "task_traced R0 W s (Arrive rq) = (rq \<in> W)"
| "task_traced R0 W s (Ingest rq) = (rq \<in> W)"
| "task_traced R0 W s (IngestFound rq found) = (rq \<in> W)"
| "task_traced R0 W s (IngestInsert rq ep) = (rq \<in> W)"
| "task_traced R0 W s (IngestEmit rq ep) = (rq \<in> W)"
| "task_traced R0 W s (Join k a) =
     (case a of Operator P \<Rightarrow> False | _ \<Rightarrow> True)"
| "task_traced R0 W s (JoinFound k a found) =
     (case a of Text e \<Rightarrow> True | Operator P \<Rightarrow> False | Other \<Rightarrow> \<not> found)"
| "task_traced R0 W s (JoinRead k a) =
     (case a of Text e \<Rightarrow> k \<in> set (rooms s e) | _ \<Rightarrow> False)"
| "task_traced R0 W s (JoinSend k a xs) =
     (case a of
        Text e \<Rightarrow> k \<in> set (rooms s e) \<and> (\<forall>x\<in>set xs. endpointId x = e \<and> known R0 W x)
      | _ \<Rightarrow> False)"
| "task_traced R0 W s t = True"

definition traced :: "request set \<Rightarrow> webhook set \<Rightarrow> config \<Rightarrow> bool" where
  "traced R0 W c =
     (case c of (s, ts) \<Rightarrow>
        (\<forall>t\<in>set ts. task_traced R0 W s t)
      \<and> (\<forall>r\<in>set (requestsCollection s). known R0 W r)
      \<and> (\<forall>kev\<in>set (emitted s). event_traced R0 W s kev))"

text \<open>The webhooks of a pool, and a pool whose joins carry no operator object.\<close>

definition webhooks :: "task list \<Rightarrow> webhook set" where
  "webhooks ts = {rq. Arrive rq \<in> set ts \<or> Ingest rq \<in> set ts}"

fun plain :: "task \<Rightarrow> bool" where
  "plain (Join k (Operator P)) = False"
| "plain t = True"

section \<open>Example data\<close>

text \<open>A server with one endpoint \<open>e1\<close> owned by \<open>alice@example.com\<close>, a configured
  mail transporter and nothing else; and a POST arriving on an endpoint.\<close>

definition ep_alice :: endpoint where
  "ep_alice =
     \<lparr>name = Some ''Test Webhook'', createdAt = 0, createdBy = Some ''alice@example.com''\<rparr>"

definition server0 :: state where
  "server0 =
     \<lparr>endpointsCollection = [''e1'' \<mapsto> ep_alice], requestsCollection = [],
      userSettings = [], rooms = (\<lambda>_. []), emitted = [], responses = [],
      transporter = True, mails = []\<rparr>"

definition post :: "eid \<Rightarrow> nat \<Rightarrow> objectId \<Rightarrow> date \<Rightarrow> webhook" where
  "post e c i t =
     \<lparr>conn = c, params_id = e, req_method = ''POST'',
      req_headers = [(''content-type'', ''application/json'')], req_body = ''{}'',
      req_query = [], now = t, insertedId = i, origin = ''http://localhost:3000'',
      refusal = None, earlier_route = False\<rparr>"

text \<open>Alice's notification setting, two users, and the server with one stored request.\<close>

definition alice_settings :: setting where
  "alice_settings =
     \<lparr>userId = ''alice@example.com'', emailNotifications = Some True,
      notificationEmail = Some ''alice@work.com''\<rparr>"

definition alice :: user where
  "alice = \<lparr>sub = ''1001'', email = Some ''alice@example.com''\<rparr>"

definition bob :: user where
  "bob = \<lparr>sub = ''1002'', email = Some ''bob@example.com''\<rparr>"

definition server1 :: state where
  "server1 = server0\<lparr>requestsCollection := [data (post ''e1'' 1 1 1000)]\<rparr>"

text \<open>Bob has switched notifications off and named Alice's address as his own; the
  settings Alice had before she changes her address.\<close>

definition bob_settings :: setting where
  "bob_settings =
     \<lparr>userId = ''1002'', emailNotifications = Some False,
      notificationEmail = Some ''alice@example.com''\<rparr>"

definition old_settings :: "setting list" where
  "old_settings =
     [\<lparr>userId = ''1001'', emailNotifications = Some True,
       notificationEmail = Some ''old@example.com''\<rparr>,
      \<lparr>userId = ''alice@example.com'', emailNotifications = Some True,
       notificationEmail = Some ''old@example.com''\<rparr>,
      \<lparr>userId = ''carol@example.com'', emailNotifications = Some True,
       notificationEmail = Some ''old@example.com''\<rparr>]"

text \<open>Two webhooks on \<open>e1\<close>, one second apart, and socket 7 joining afterwards: each
  handler runs its four steps before the next one starts.\<close>

definition two_posts_and_join :: "task list" where
  "two_posts_and_join =
     [Ingest (post ''e1'' 1 1 1000), Ingest (post ''e1'' 2 2 2000), Join 7 (Text ''e1'')]"

definition one_after_another :: "(nat \<times> bool) list" where
  "one_after_another =
     [(0, True), (0, True), (0, True), (0, True),
      (1, True), (1, True), (1, True), (1, True),
      (2, True), (2, True), (2, True), (2, True)]"

definition server2 :: state where
  "server2 =
     server0\<lparr>requestsCollection := [data (post ''e1'' 1 1 1000), data (post ''e1'' 2 2 2000)]\<rparr>"



text \<open>Socket 7 joins \<open>e1\<close> while a webhook arrives there. The join enters the room, the
  webhook is stored, the join reads its snapshot, the webhook is broadcast, the join
  sends the snapshot; then the notification lookups of the webhook run.\<close>

definition join_and_post :: "task list" where
  "join_and_post = [Join 7 (Text ''e1''), Ingest (post ''e1'' 1 1 1000)]"

definition race :: "(nat \<times> bool) list" where
  "race =
     [(0, True), (0, True), (1, True), (1, True), (1, True), (0, True), (1, True), (0, True),
      (1, True), (1, True)]"

text \<open>A server that holds 101 requests of \<open>e1\<close>, stored at the times 0 to 100.\<close>

definition backlog :: "request list" where
  "backlog = map (\<lambda>i. data (post ''e1'' i i (int i))) [0..<101]"

definition server101 :: state where
  "server101 = server0\<lparr>requestsCollection := backlog\<rparr>"



text \<open>The settings after Alice has enabled notifications (her address is her own email
  address) and the user with subject identifier \<open>0999\<close> and email \<open>zed@example.com\<close>
  has enabled them naming Alice's address: \<open>POST /api/notifications/enable\<close> writes a
  row under each of the caller's two keys.\<close>

definition stale_settings :: "setting list" where
  "stale_settings =
     [\<lparr>userId = ''1001'', emailNotifications = Some True,
       notificationEmail = Some ''alice@example.com''\<rparr>,
      \<lparr>userId = ''alice@example.com'', emailNotifications = Some True,
       notificationEmail = Some ''alice@example.com''\<rparr>,
      \<lparr>userId = ''0999'', emailNotifications = Some True,
       notificationEmail = Some ''alice@example.com''\<rparr>,
      \<lparr>userId = ''zed@example.com'', emailNotifications = Some True,
       notificationEmail = Some ''alice@example.com''\<rparr>]"

text \<open>A server with a second endpoint \<open>e2\<close>, created by \<open>bob@example.com\<close>, and one
  stored request on each endpoint; and the join argument \<open>{ $ne: null }\<close>, which every
  string satisfies.\<close>

definition ep_bob :: endpoint where
  "ep_bob = \<lparr>name = None, createdAt = 0, createdBy = Some ''bob@example.com''\<rparr>"

definition server3 :: state where
  "server3 =
     server0\<lparr>endpointsCollection := [''e1'' \<mapsto> ep_alice, ''e2'' \<mapsto> ep_bob],
             requestsCollection := [data (post ''e1'' 1 1 1000), data (post ''e2'' 2 2 2000)]\<rparr>"

definition not_null :: argument where
  "not_null = Operator (\<lambda>x. True)"

text \<open>Socket 7 joins \<open>e1\<close> while webhooks arrive on \<open>e1\<close> and on \<open>e2\<close>.\<close>

definition join_and_two_posts :: "task list" where
  "join_and_two_posts =
     [Join 7 (Text ''e1''), Arrive (post ''e1'' 1 3 3000), Arrive (post ''e2'' 2 4 4000)]"

definition three_in_turn :: "(nat \<times> bool) list" where
  "three_in_turn =
     [(0, True), (0, True), (0, True), (0, True),
      (1, True), (1, True), (1, True), (1, True), (1, True),
      (2, True), (2, True), (2, True), (2, True), (2, True)]"

section \<open>Basic facts\<close>

lemma solo_Nil [simp]: "solo [] t s = (s, [t])"
  by (simp add: solo_def run_def)

lemma solo_Cons:
  "solo (ok # oks) t s = (case exec ok t s of (t', s') \<Rightarrow> solo oks t' s')"
  by (simp add: solo_def run_def split: prod.split)

lemma solo_Finished [simp]: "solo oks Finished s = (s, [Finished])"
  by (induction oks) (simp_all add: solo_Cons)

lemma respond_fields [simp]:
  "requestsCollection (respond c r s) = requestsCollection s"
  "endpointsCollection (respond c r s) = endpointsCollection s"
  "userSettings (respond c r s) = userSettings s"
  "rooms (respond c r s) = rooms s"
  "emitted (respond c r s) = emitted s"
  "mails (respond c r s) = mails s"
  "transporter (respond c r s) = transporter s"
  "responses (respond c r s) = responses s @ [(c, r)]"
  by (simp_all add: respond_def)

lemma data_fields [simp]:
  "rid (data rq) = insertedId rq"
  "endpointId (data rq) = params_id rq"
  "timestamp (data rq) = now rq"
  by (simp_all add: data_def)

lemma formatted_fields [simp]:
  "p_id (formatted r) = rid r"
  "p_timestamp (formatted r) = timestamp r"
  by (simp_all add: formatted_def)

lemma step_eq:
  "i < length ts \<Longrightarrow>
     step (i, ok) (s, ts) = (snd (exec ok (ts ! i) s), ts[i := fst (exec ok (ts ! i) s)])"
  by (simp split: prod.split)

lemma endpointExists_Text [simp]: "endpointExists (Text e) m = (m e \<noteq> None)"
  by (auto simp: endpointExists_def)

text \<open>A property that every step preserves holds after every schedule.\<close>

lemma run_invariant:
  assumes "\<And>a c. I c \<Longrightarrow> I (step a c)" and "I c"
  shows "I (run sched c)"
  using assms(2) unfolding run_def
  by (induction sched arbitrary: c) (simp_all add: assms(1))

section \<open>Ingesting for an endpoint that does not exist\<close>

lemma ingest_unknown_keeps:
  assumes "endpointsCollection s (params_id rq) = None"
  shows "requestsCollection (fst (solo fs (Ingest rq) s)) = requestsCollection s"
proof (cases fs)
  case Nil
  then show ?thesis by simp
next
  case outer: (Cons a fs1)
  show ?thesis
  proof (cases fs1)
    case Nil
    with outer show ?thesis by (simp add: solo_Cons)
  next
    case (Cons b fs2)
    with outer assms show ?thesis by (simp add: solo_Cons)
  qed
qed

lemma arrive_unknown_keeps:
  assumes "endpointsCollection s (params_id rq) = None"
  shows "requestsCollection (fst (solo fs (Arrive rq) s)) = requestsCollection s"
proof (cases fs)
  case Nil
  then show ?thesis by simp
next
  case (Cons a fs1)
  with ingest_unknown_keeps [OF assms, of fs1] show ?thesis
    by (simp add: solo_Cons split: option.split)
qed

text \<open>
  Claim C4, as the code has it. Take a request on \<open>/<id>\<close> for which the endpoints
  hold no document of that identifier. Whatever becomes of it (answered by \<open>cors()\<close>,
  refused by Express, taken by an earlier route, or handled by \<open>app.all('/:id')\<close>
  with the lookup succeeding or throwing), the stored requests are afterwards what they
  were. When it reaches \<open>app.all('/:id')\<close>, that is, it is no \<open>OPTIONS\<close> request,
  Express accepts it and no earlier route takes it, and the lookup succeeds, the caller
  is answered 404 (\<open>NotFound\<close>) and the handler has ended. Step by step, in whatever
  state \<open>s'\<close> the server is when the handler resumes: a lookup that reports nothing is
  followed by the 404 and the end of the handler, and that step leaves the stored
  requests as they are.
\<close>

theorem ingest_unknown_endpoint:
  assumes "endpointsCollection s (params_id rq) = None"
  shows "requestsCollection (fst (solo fs (Arrive rq) s)) = requestsCollection s
     \<and> (req_method rq \<noteq> ''OPTIONS'' \<and> refusal rq = None \<and> \<not> earlier_route rq \<longrightarrow>
          solo (ok0 # True # ok # oks) (Arrive rq) s
            = (respond (conn rq) NotFound s, [Finished]))
     \<and> exec True (Ingest rq) s = (IngestFound rq None, s)
     \<and> exec ok (IngestFound rq None) s' = (Finished, respond (conn rq) NotFound s')
     \<and> requestsCollection (respond (conn rq) NotFound s') = requestsCollection s'
     \<and> solo (True # ok # oks) (Ingest rq) s = (respond (conn rq) NotFound s, [Finished])
     \<and> responses (fst (solo (True # ok # oks) (Ingest rq) s))
         = responses s @ [(conn rq, NotFound)]
     \<and> requestsCollection (fst (solo (True # ok # oks) (Ingest rq) s))
         = requestsCollection s"
  using assms arrive_unknown_keeps [OF assms, of fs] by (simp add: solo_Cons)

text \<open>Witness: a POST on \<open>/nope\<close>, which no endpoint has as its identifier.\<close>

theorem ingest_unknown_endpoint_witness:
  "solo [True, True, True] (Arrive (post ''nope'' 4 9 1000)) server0
     = (respond 4 NotFound server0, [Finished])
   \<and> responses (fst (solo [True, True, True] (Arrive (post ''nope'' 4 9 1000)) server0))
       = [(4, NotFound)]
   \<and> requestsCollection (fst (solo [True, True, True] (Arrive (post ''nope'' 4 9 1000)) server0))
       = []"
proof -
  have none: "endpointsCollection server0 (params_id (post ''nope'' 4 9 1000)) = None"
    by (simp add: server0_def post_def)
  have c: "conn (post ''nope'' 4 9 1000) = 4"
    "req_method (post ''nope'' 4 9 1000) \<noteq> ''OPTIONS''"
    "refusal (post ''nope'' 4 9 1000) = None" "\<not> earlier_route (post ''nope'' 4 9 1000)"
    by (simp_all add: post_def)
  from ingest_unknown_endpoint [OF none, of "[True, True, True]" True True "[]"] c
  have "solo [True, True, True] (Arrive (post ''nope'' 4 9 1000)) server0
      = (respond 4 NotFound server0, [Finished])"
    by simp
  then show ?thesis by (simp add: server0_def)
qed

text \<open>
  Claim C4 as the spec states it promises the 404 to every request for an unknown
  identifier. The server registers \<open>cors()\<close> and the body parsers in front of its
  routes: an \<open>OPTIONS\<close> request on \<open>/nope\<close> is answered 204 by \<open>cors()\<close>, and a
  POST on \<open>/nope\<close> whose body the JSON parser refuses is answered 400; neither
  reaches the handler that answers 404.
\<close>

theorem unknown_endpoint_not_always_404:
  "endpointsCollection server0 ''nope'' = None
   \<and> solo [True, True, True]
       (Arrive ((post ''nope'' 4 9 1000)\<lparr>req_method := ''OPTIONS''\<rparr>)) server0
     = (respond 4 NoContent server0, [Finished])
   \<and> solo [True, True, True]
       (Arrive ((post ''nope'' 4 9 1000)\<lparr>refusal := Some 400\<rparr>)) server0
     = (respond 4 (Rejected 400) server0, [Finished])"
  by (simp add: solo_Cons server0_def post_def)

lemma emit_fields [simp]:
  "requestsCollection (emit k ev s) = requestsCollection s"
  "endpointsCollection (emit k ev s) = endpointsCollection s"
  "userSettings (emit k ev s) = userSettings s"
  "rooms (emit k ev s) = rooms s"
  "emitted (emit k ev s) = emitted s @ [(k, ev)]"
  "mails (emit k ev s) = mails s"
  "transporter (emit k ev s) = transporter s"
  "responses (emit k ev s) = responses s"
  by (simp_all add: emit_def)

lemma broadcast_fields [simp]:
  "requestsCollection (broadcast e ev s) = requestsCollection s"
  "endpointsCollection (broadcast e ev s) = endpointsCollection s"
  "userSettings (broadcast e ev s) = userSettings s"
  "rooms (broadcast e ev s) = rooms s"
  "emitted (broadcast e ev s) = emitted s @ map (\<lambda>k. (k, ev)) (rooms s e)"
  "mails (broadcast e ev s) = mails s"
  "transporter (broadcast e ev s) = transporter s"
  "responses (broadcast e ev s) = responses s"
  by (simp_all add: broadcast_def)

lemma socket_join_fields [simp]:
  "requestsCollection (socket_join k e s) = requestsCollection s"
  "endpointsCollection (socket_join k e s) = endpointsCollection s"
  "userSettings (socket_join k e s) = userSettings s"
  "emitted (socket_join k e s) = emitted s"
  "mails (socket_join k e s) = mails s"
  "transporter (socket_join k e s) = transporter s"
  "responses (socket_join k e s) = responses s"
  by (simp_all add: socket_join_def)

lemma socket_join_rooms:
  "set (rooms (socket_join k e s) e') =
     (if e' = e then insert k (set (rooms s e)) else set (rooms s e'))"
  by (auto simp: socket_join_def)

section \<open>The response to an ingest does not wait for the notification\<close>

lemma notifying_resolved [simp]: "notifying (resolved n found)"
  by (simp add: resolved_def split: option.split)

lemma notifying_start [simp]: "notifying (sendWebhookNotification n)"
  by (simp add: sendWebhookNotification_def)

lemma notifying_exec:
  assumes "notifying t"
  shows "notifying (fst (exec ok t s))"
    and "responses (snd (exec ok t s)) = responses s"
    and "requestsCollection (snd (exec ok t s)) = requestsCollection s"
    and "emitted (snd (exec ok t s)) = emitted s"
  using assms by (cases t; simp split: option.split)+

lemma notifying_solo:
  assumes "notifying t"
  shows "responses (fst (solo oks t s)) = responses s
       \<and> requestsCollection (fst (solo oks t s)) = requestsCollection s
       \<and> emitted (fst (solo oks t s)) = emitted s"
  using assms
proof (induction oks arbitrary: t s)
  case Nil
  then show ?case by simp
next
  case (Cons ok oks)
  obtain t' s' where e: "exec ok t s = (t', s')"
    by (cases "exec ok t s")
  with notifying_exec [OF Cons.prems, of ok s]
  have "notifying t'" "responses s' = responses s"
    "requestsCollection s' = requestsCollection s" "emitted s' = emitted s"
    by simp_all
  with Cons.IH [of t' s'] e show ?case
    by (simp add: solo_Cons)
qed

lemma steps_left_resolved: "steps_left (resolved n found) \<le> 2"
  by (simp add: resolved_def split: option.split)

lemma steps_left_start: "steps_left (sendWebhookNotification n) \<le> 5"
  by (simp add: sendWebhookNotification_def)

lemma notifying_progress:
  assumes "notifying t"
  shows "steps_left (fst (exec ok t s)) \<le> steps_left t - 1"
proof (cases t)
  case (NotifyBySub n)
  have "steps_left (resolved n found) \<le> 4" for found
    using steps_left_resolved [of n found] by simp
  with NotifyBySub show ?thesis
    by (simp split: option.split)
next
  case (NotifyByAddress n)
  have "steps_left (resolved n found) \<le> 3" for found
    using steps_left_resolved [of n found] by simp
  with NotifyByAddress show ?thesis
    by (simp split: option.split)
next
  case (NotifyByKey n)
  with steps_left_resolved [of n] show ?thesis
    by simp
qed (use assms in auto)

text \<open>Whatever the store and the transport answer, \<open>sendWebhookNotification\<close> ends.\<close>

lemma notifying_ends:
  assumes "notifying t" and "steps_left t \<le> length oks"
  shows "snd (solo oks t s) = [Finished]"
  using assms
proof (induction oks arbitrary: t s)
  case Nil
  then show ?case by (cases t) simp_all
next
  case (Cons ok oks)
  obtain t' s' where e: "exec ok t s = (t', s')"
    by (cases "exec ok t s")
  from notifying_exec(1) [OF Cons.prems(1), of ok s] e have n: "notifying t'"
    by simp
  from notifying_progress [OF Cons.prems(1), of ok s] e Cons.prems(2)
  have "steps_left t' \<le> length oks"
    by simp
  with Cons.IH [OF n] e show ?case
    by (simp add: solo_Cons)
qed

text \<open>
  Claim C5. Take an ingest whose endpoint lookup finds the endpoint and whose
  \<open>insertOne\<close> succeeds (the store accepts the \<open>_id\<close>). Once the handler has resumed
  after the insert (four steps), the caller has its answer: \<open>200 Received\<close>, or for
  a browser GET the redirect to the viewer. The answer is the same whatever the flags
  \<open>oks\<close> of the later steps are, that is whether the settings lookups, the endpoint
  lookup or \<open>sendMail\<close> throw, and whoever is in the room; the request is stored,
  and after at most five more steps the notification has ended, whatever it met.
  With other handlers in between it is the same: the step that resumes after the insert
  records this answer in whatever state \<open>s'\<close> the server is by then, and no step of
  \<open>sendWebhookNotification\<close> touches the responses.
\<close>

theorem ingest_acknowledged:
  assumes "endpointsCollection s (params_id rq) = Some ep"
    and "insertedId rq \<notin> rid ` set (requestsCollection s)"
  shows "responses (fst (solo (True # ok # True # ok' # oks) (Ingest rq) s))
           = responses s @ [(conn rq, reply rq)]
       \<and> (reply rq = Received \<or> reply rq = Redirect (insertedId rq))
       \<and> requestsCollection (fst (solo (True # ok # True # ok' # oks) (Ingest rq) s))
           = requestsCollection s @ [data rq]
       \<and> (5 \<le> length oks \<longrightarrow>
             snd (solo (True # ok # True # ok' # oks) (Ingest rq) s) = [Finished])
       \<and> responses (snd (exec ok' (IngestEmit rq ep) s')) = responses s' @ [(conn rq, reply rq)]
       \<and> notifying (fst (exec ok' (IngestEmit rq ep) s'))
       \<and> (notifying t \<longrightarrow>
             notifying (fst (exec ok' t s')) \<and> responses (snd (exec ok' t s')) = responses s')"
proof -
  have "snd (solo oks (fst (exec ok' (IngestEmit rq ep) u)) v) = [Finished]"
    if "5 \<le> length oks" for u v
  proof (rule notifying_ends)
    show "notifying (fst (exec ok' (IngestEmit rq ep) u))"
      by simp
    from steps_left_start that
    show "steps_left (fst (exec ok' (IngestEmit rq ep) u)) \<le> length oks"
      by (auto intro: le_trans)
  qed
  with assms show ?thesis
    by (simp add: solo_Cons notifying_solo notifying_exec reply_def)
qed

text \<open>Witness: the notification is enabled, the mail is handed to the transport, the
  transport throws, and the caller still gets \<open>Received\<close>.\<close>

theorem ingest_acknowledged_witness:
  "responses (fst (solo [True, True, True, True, True, True, True, False]
       (Ingest (post ''e1'' 1 1 1000)) (server0\<lparr>userSettings := [alice_settings]\<rparr>)))
     = [(1, Received)]
   \<and> mail_to ` set (mails (fst (solo [True, True, True, True, True, True, True, False]
       (Ingest (post ''e1'' 1 1 1000)) (server0\<lparr>userSettings := [alice_settings]\<rparr>))))
     = {''alice@work.com''}"
proof -
  let ?s = "server0\<lparr>userSettings := [alice_settings]\<rparr>"
  have found: "endpointsCollection ?s (params_id (post ''e1'' 1 1 1000)) = Some ep_alice"
    by (simp add: server0_def post_def)
  have fresh: "insertedId (post ''e1'' 1 1 1000) \<notin> rid ` set (requestsCollection ?s)"
    by (simp add: server0_def)
  have r: "reply (post ''e1'' 1 1 1000) = Received" "conn (post ''e1'' 1 1 1000) = 1"
    by (simp_all add: reply_def post_def)
  have m: "mail_to ` set (mails (fst (solo [True, True, True, True, True, True, True, False]
       (Ingest (post ''e1'' 1 1 1000)) ?s))) = {''alice@work.com''}"
    by (simp add: solo_Cons server0_def post_def ep_alice_def alice_settings_def truthy_def
        or_else_def sendWebhookNotification_def resolved_def mailOptions_def)
  from ingest_acknowledged [OF found fresh, of True True "[True, True, True, False]"] r m
  show ?thesis by (simp add: server0_def)
qed

text \<open>The other answer: a GET of a browser is redirected to the viewer.\<close>

lemma reply_browser_get:
  "reply ((post ''e1'' 1 5 1000)
      \<lparr>req_method := ''GET'', req_headers := [(''user-agent'', ''Mozilla/5.0'')]\<rparr>)
   = Redirect 5"
  by (simp add: reply_def userAgent_def or_else_def post_def)

section \<open>Deleting an endpoint\<close>

text \<open>
  Claim C8. After \<open>DELETE /endpoints/:id\<close> has run (both store operations succeed),
  the endpoint is gone, no stored request carries its identifier, and the caller got
  \<open>success\<close>. A join for that identifier afterwards is answered with the error event
  \<open>Endpoint not found\<close> and changes no room. Step by step, in whatever state the
  server is: \<open>deleteOne\<close> leaves no endpoint of that identifier, \<open>deleteMany\<close> leaves
  no request of it, and a join whose lookup found nothing leaves the rooms as they are.
\<close>

theorem delete_purges_requests:
  "let s1 = fst (solo [True, True] (Delete c (Some u) e) s);
       s2 = fst (solo (True # ok # oks) (Join k (Text e)) s1)
   in endpointsCollection s1 e = None
    \<and> filter (\<lambda>r. endpointId r = e) (requestsCollection s1) = []
    \<and> responses s1 = responses s @ [(c, Success)]
    \<and> emitted s2 = emitted s1 @ [(k, ErrorEvent ''Endpoint not found'')]
    \<and> rooms s2 = rooms s1
    \<and> endpointsCollection (snd (exec True (Delete c (Some u) e) s')) e = None
    \<and> filter (\<lambda>r. endpointId r = e) (requestsCollection (snd (exec True (DeleteMany c e) s')))
        = []
    \<and> exec ok (JoinFound k (Text e) False) s'
        = (Finished, emit k (ErrorEvent ''Endpoint not found'') s')
    \<and> rooms (emit k (ErrorEvent ''Endpoint not found'') s') = rooms s'"
  by (simp add: Let_def solo_Cons filter_empty_conv)

theorem delete_purges_requests_witness:
  "requestsCollection server1 = [data (post ''e1'' 1 1 1000)]
   \<and> endpointsCollection (fst (solo [True, True] (Delete 2 (Some alice) ''e1'') server1)) ''e1''
       = None
   \<and> requestsCollection (fst (solo [True, True] (Delete 2 (Some alice) ''e1'') server1)) = []"
  using delete_purges_requests [of 2 alice "''e1''" server1 True "[]" 7 server1]
  by (simp add: Let_def solo_Cons server1_def server0_def data_def post_def)

text \<open>
  Claim C9 asks that only the owner can delete an endpoint. The handler checks that the
  caller is authenticated and then deletes by \<open>_id\<close> alone: here \<open>bob\<close> deletes the
  endpoint that \<open>alice@example.com\<close> created, and its stored request with it.
  (\<open>GET /endpoints\<close> does restrict itself to \<open>createdBy: req.user.email\<close>.)
\<close>

theorem delete_by_other_user:
  "createdBy ep_alice = Some ''alice@example.com''
   \<and> email bob = Some ''bob@example.com''
   \<and> endpointsCollection server1 ''e1'' = Some ep_alice
   \<and> requestsCollection server1 = [data (post ''e1'' 1 1 1000)]
   \<and> solo [True, True] (Delete 2 (Some bob) ''e1'') server1
      = (respond 2 Success
           (server1\<lparr>endpointsCollection := Map.empty, requestsCollection := []\<rparr>),
         [Finished])"
  by (simp add: solo_Cons server1_def server0_def ep_alice_def bob_def data_def post_def)

section \<open>Routing the notification\<close>

lemma solo_resolved:
  "solo (True # ok # oks) (resolved n found) s
     = (s\<lparr>mails := mails s @ dispatched n found s\<rparr>, [Finished])"
  by (simp add: resolved_def dispatched_def solo_Cons split: option.split)

lemma solo_by_key:
  "solo (True # True # ok # oks) (NotifyByKey n) s
     = (s\<lparr>mails := mails s @
           dispatched n (find (\<lambda>d. userId d = creatorEmail n) (userSettings s)) s\<rparr>,
        [Finished])"
  by (subst solo_Cons) (simp add: solo_resolved)

lemma solo_by_address:
  "solo (True # True # True # ok # oks) (NotifyByAddress n) s
     = (s\<lparr>mails := mails s @
           dispatched n (resolution None (creatorEmail n) (userSettings s)) s\<rparr>,
        [Finished])"
  by (subst solo_Cons)
     (simp add: solo_resolved solo_by_key resolution_def truthy_def split: option.split)

lemma solo_by_sub:
  assumes "truthy (googleUserId n)"
  shows "solo (True # True # True # True # ok # oks) (NotifyBySub n) s
     = (s\<lparr>mails := mails s @
          dispatched n (resolution (googleUserId n) (creatorEmail n) (userSettings s)) s\<rparr>,
        [Finished])"
  using assms
  apply (subst solo_Cons)
  apply (simp add: solo_resolved solo_by_address split: option.split)
  apply (simp add: resolution_def truthy_def split: option.split)
  done

lemma solo_route:
  "solo (True # True # True # True # ok # oks) (sendWebhookNotification n) s
     = (s\<lparr>mails := mails s @
          dispatched n (resolution (googleUserId n) (creatorEmail n) (userSettings s)) s\<rparr>,
        [Finished])"
proof (cases "truthy (googleUserId n)")
  case True
  then show ?thesis by (simp add: sendWebhookNotification_def solo_by_sub)
next
  case False
  then have "resolution (googleUserId n) (creatorEmail n) (userSettings s)
      = resolution None (creatorEmail n) (userSettings s)"
    by (simp add: resolution_def truthy_def)
  with False show ?thesis by (simp add: sendWebhookNotification_def solo_by_address)
qed

text \<open>
  Claim C6, as the code has it. With the store answering every lookup,
  \<open>sendWebhookNotification\<close> ends without an error, and it hands the transport exactly
  these mails: none when the resolution order (explicit subject identifier, then
  \<open>notificationEmail\<close> equal to the owner key, then the setting keyed by the owner key)
  finds no setting, or finds one whose \<open>emailNotifications\<close> is not \<open>true\<close>, or when
  no mail transporter is configured; otherwise one mail, addressed to the found setting's
  \<open>notificationEmail\<close> (to the owner key when it has none). In particular, when no
  subject identifier is supplied, no setting has the owner key \<open>K\<close> as its
  \<open>notificationEmail\<close>, the setting keyed by \<open>K\<close> is enabled with address \<open>a\<close>, and a
  transporter is configured, exactly one mail is sent and it goes to \<open>a\<close>. And
  whatever the store and the transport answer (flags \<open>fs\<close>), the function has ended
  after five steps: a failure is caught inside it.
\<close>

theorem route_notification:
  "let found = resolution (googleUserId n) (creatorEmail n) (userSettings s);
       fin = solo (True # True # True # True # ok # oks) (sendWebhookNotification n) s
   in snd fin = [Finished]
    \<and> mails (fst fin) = mails s @
         (case found of
            None \<Rightarrow> []
          | Some us \<Rightarrow>
              if emailNotifications us = Some True \<and> transporter s
              then [mailOptions n (or_else (notificationEmail us) (creatorEmail n))
                      (endpointsCollection s (params_id (about n)))]
              else [])
    \<and> (\<not> truthy (googleUserId n)
         \<and> (\<forall>d\<in>set (userSettings s). notificationEmail d \<noteq> Some (creatorEmail n))
         \<and> find (\<lambda>d. userId d = creatorEmail n) (userSettings s) = Some us
         \<and> emailNotifications us = Some True \<and> notificationEmail us = Some a \<and> a \<noteq> []
         \<and> transporter s
        \<longrightarrow> map mail_to (mails (fst fin)) = map mail_to (mails s) @ [a])
    \<and> (5 \<le> length fs \<longrightarrow> snd (solo fs (sendWebhookNotification n) s) = [Finished])"
proof -
  have "find (\<lambda>d. notificationEmail d = Some (creatorEmail n)) (userSettings s) = None"
    if "\<forall>d\<in>set (userSettings s). notificationEmail d \<noteq> Some (creatorEmail n)"
    using that by (simp add: find_None_iff)
  moreover have "snd (solo fs (sendWebhookNotification n) s) = [Finished]"
    if "5 \<le> length fs"
  proof (rule notifying_ends)
    show "notifying (sendWebhookNotification n)"
      by simp
    from steps_left_start [of n] that
    show "steps_left (sendWebhookNotification n) \<le> length fs"
      by simp
  qed
  ultimately show ?thesis
    by (auto simp: Let_def solo_route dispatched_def resolution_def mailOptions_def or_else_def)
qed

text \<open>Witness: the example of the spec. The setting keyed by \<open>alice@example.com\<close> is
  enabled with address \<open>alice@work.com\<close>, and a webhook on her endpoint sends one mail
  there.\<close>

theorem route_notification_witness:
  "map mail_to (mails (fst (solo [True, True, True, True, True]
      (sendWebhookNotification
         \<lparr>creatorEmail = ''alice@example.com'', about = post ''e1'' 1 1 1000,
          googleUserId = None\<rparr>)
      (server0\<lparr>userSettings := [alice_settings]\<rparr>))))
   = [''alice@work.com'']"
proof -
  let ?n = "\<lparr>creatorEmail = ''alice@example.com'', about = post ''e1'' 1 1 1000,
             googleUserId = None\<rparr>"
  let ?s = "server0\<lparr>userSettings := [alice_settings]\<rparr>"
  have h: "\<not> truthy (googleUserId ?n)
         \<and> (\<forall>d\<in>set (userSettings ?s). notificationEmail d \<noteq> Some (creatorEmail ?n))
         \<and> find (\<lambda>d. userId d = creatorEmail ?n) (userSettings ?s) = Some alice_settings
         \<and> emailNotifications alice_settings = Some True
         \<and> notificationEmail alice_settings = Some ''alice@work.com''
         \<and> ''alice@work.com'' \<noteq> []
         \<and> transporter ?s"
    by (simp add: truthy_def alice_settings_def server0_def)
  have "map mail_to (mails (fst (solo (True # True # True # True # True # [])
           (sendWebhookNotification ?n) ?s)))
      = map mail_to (mails ?s) @ [''alice@work.com'']"
    using route_notification [of ?n ?s True "[]" alice_settings "''alice@work.com''"] h
    unfolding Let_def by blast
  then show ?thesis
    by (simp add: server0_def)
qed

text \<open>
  Claim C6 as the spec states it fails in two ways. A webhook arrives on Alice's endpoint,
  the setting keyed by her owner key is enabled with address \<open>alice@work.com\<close>, and every
  store operation succeeds. (1) Bob's setting names \<open>alice@example.com\<close> as its
  \<open>notificationEmail\<close> and is disabled: the lookup by address finds it first, and no
  mail is sent. (2) No mail transporter is configured: no mail is sent.
\<close>

theorem route_not_to_keyed_setting:
  "createdBy ep_alice = Some ''alice@example.com''
   \<and> userId alice_settings = ''alice@example.com''
   \<and> emailNotifications alice_settings = Some True
   \<and> notificationEmail alice_settings = Some ''alice@work.com''
   \<and> transporter server0
   \<and> mails (fst (solo [True, True, True, True, True, True, True, True, True]
        (Ingest (post ''e1'' 1 1 1000))
        (server0\<lparr>userSettings := [bob_settings, alice_settings]\<rparr>))) = []
   \<and> responses (fst (solo [True, True, True, True, True, True, True, True, True]
        (Ingest (post ''e1'' 1 1 1000))
        (server0\<lparr>userSettings := [bob_settings, alice_settings]\<rparr>))) = [(1, Received)]
   \<and> mails (fst (solo [True, True, True, True, True, True, True, True, True]
        (Ingest (post ''e1'' 1 1 1000))
        (server0\<lparr>userSettings := [alice_settings], transporter := False\<rparr>))) = []
   \<and> responses (fst (solo [True, True, True, True, True, True, True, True, True]
        (Ingest (post ''e1'' 1 1 1000))
        (server0\<lparr>userSettings := [alice_settings], transporter := False\<rparr>)))
       = [(1, Received)]"
  by (simp add: solo_Cons server0_def post_def ep_alice_def alice_settings_def bob_settings_def
      truthy_def or_else_def sendWebhookNotification_def resolved_def reply_def userAgent_def
      data_def formatted_def respond_def broadcast_def)

section \<open>Changing the notification address\<close>

lemma updateOne_keys:
  "map userId (updateOne key (set_address a) ds)
     = (if key \<in> set (map userId ds) then map userId ds else map userId ds @ [key])"
  by (induction ds) auto

lemma updateOne_others:
  "filter (\<lambda>d. userId d \<noteq> key \<and> Q d) (updateOne key (set_address a) ds)
     = filter (\<lambda>d. userId d \<noteq> key \<and> Q d) ds"
  by (induction ds) auto

lemma updateOne_addresses:
  assumes "\<forall>d\<in>set ds. userId d \<in> K \<longrightarrow> notificationEmail d = Some a"
  shows "\<forall>d\<in>set (updateOne key (set_address a) ds).
           userId d \<in> K \<longrightarrow> notificationEmail d = Some a"
  using assms by (induction ds) auto

lemma updateOne_rows:
  assumes "\<forall>d\<in>set ds. userId d = key \<longrightarrow> notificationEmail d = Some a"
  shows "set (updateOne key (set_address a) ds) \<subseteq> set ds \<union> {fresh key a}"
  using assms by (induction ds) (auto simp: fresh_def)

lemma identities_both:
  "sub u \<noteq> [] \<Longrightarrow> email u = Some m \<Longrightarrow> m \<noteq> [] \<Longrightarrow> set (identities u) = {sub u, m}"
  by (auto simp: identities_def)

lemma solo_setEmail:
  assumes "js_includes a ''@''" "email u = Some m" "m \<noteq> []"
  shows "solo [True, True, True] (SetEmail c (Some u) (Some a)) s
     = (respond c (Saved a)
          (s\<lparr>userSettings :=
               (if m = sub u
                then updateOne (sub u) (set_address a) (cleaned u a (userSettings s))
                else updateOne m (set_address a)
                       (updateOne (sub u) (set_address a) (cleaned u a (userSettings s))))\<rparr>),
        [Finished])"
proof -
  from assms(1) have "a \<noteq> []" by auto
  with assms show ?thesis
    by (simp add: solo_Cons cleaned_def)
qed

text \<open>
  Claim C7, as the code has it. A principal with subject identifier \<open>sub u\<close> and email
  \<open>m\<close> posts a valid address \<open>a\<close>, and the three store operations succeed. The
  \<open>deleteMany\<close> looks at the rows under the principal's own two keys only. Afterwards
  every settings row keyed by the subject identifier or by the email carries the address
  \<open>a\<close> (the rows under these two keys that carried another address were deleted),
  there is a row under each of the two keys, the rows under all other keys are as
  before, whatever address they carry, keys that were unique stay unique, and the caller
  is answered with the saved address. A row under one of the two keys is either a row
  that was there before or a row made by the upsert, which holds the key and the address
  and no \<open>emailNotifications\<close>; so when the principal had no row with the address
  \<open>a\<close> before, no row under the two keys has \<open>emailNotifications\<close> afterwards.
\<close>

theorem setEmail_replaces_address:
  assumes "js_includes a ''@''" and "sub u \<noteq> []" and "email u = Some m" and "m \<noteq> []"
  shows "let s' = fst (solo [True, True, True] (SetEmail c (Some u) (Some a)) s)
         in (\<forall>d\<in>set (userSettings s').
               userId d = sub u \<or> userId d = m \<longrightarrow> notificationEmail d = Some a)
          \<and> (\<exists>d\<in>set (userSettings s'). userId d = sub u)
          \<and> (\<exists>d\<in>set (userSettings s'). userId d = m)
          \<and> filter (\<lambda>d. userId d \<noteq> sub u \<and> userId d \<noteq> m) (userSettings s')
              = filter (\<lambda>d. userId d \<noteq> sub u \<and> userId d \<noteq> m) (userSettings s)
          \<and> (distinct (map userId (userSettings s))
               \<longrightarrow> distinct (map userId (userSettings s')))
          \<and> responses s' = responses s @ [(c, Saved a)]
          \<and> (\<forall>d\<in>set (userSettings s').
               userId d = sub u \<or> userId d = m \<longrightarrow>
                 d \<in> set (userSettings s)
                 \<or> d = \<lparr>userId = userId d, emailNotifications = None,
                         notificationEmail = Some a\<rparr>)
          \<and> ((\<forall>d\<in>set (userSettings s).
                 userId d = sub u \<or> userId d = m \<longrightarrow> notificationEmail d \<noteq> Some a)
               \<longrightarrow> (\<forall>d\<in>set (userSettings s').
                      userId d = sub u \<or> userId d = m \<longrightarrow> emailNotifications d = None))"
proof -
  let ?K = "{sub u, m}"
  let ?c = "cleaned u a (userSettings s)"
  let ?one = "updateOne (sub u) (set_address a) ?c"
  let ?two = "updateOne m (set_address a) ?one"
  let ?fin = "if m = sub u then ?one else ?two"
  have ids: "set (identities u) = ?K"
    using assms by (simp add: identities_both)
  have c_addr: "\<forall>d\<in>set ?c. userId d \<in> ?K \<longrightarrow> notificationEmail d = Some a"
    by (auto simp: cleaned_def ids)
  have one_addr: "\<forall>d\<in>set ?one. userId d \<in> ?K \<longrightarrow> notificationEmail d = Some a"
    by (rule updateOne_addresses [OF c_addr])
  have two_addr: "\<forall>d\<in>set ?two. userId d \<in> ?K \<longrightarrow> notificationEmail d = Some a"
    by (rule updateOne_addresses [OF one_addr])
  have addr: "\<forall>d\<in>set ?fin. userId d = sub u \<or> userId d = m \<longrightarrow> notificationEmail d = Some a"
    using one_addr two_addr by auto
  have one_keys: "sub u \<in> set (map userId ?one)"
    by (simp add: updateOne_keys)
  have two_keys: "sub u \<in> set (map userId ?two)" "m \<in> set (map userId ?two)"
    using one_keys by (simp_all add: updateOne_keys)
  have has_sub: "\<exists>d\<in>set ?fin. userId d = sub u"
    using one_keys two_keys by auto
  have has_m: "\<exists>d\<in>set ?fin. userId d = m"
    using one_keys two_keys by auto
  have c_others: "filter (\<lambda>d. userId d \<noteq> sub u \<and> userId d \<noteq> m) ?c
      = filter (\<lambda>d. userId d \<noteq> sub u \<and> userId d \<noteq> m) (userSettings s)"
    by (auto simp: cleaned_def ids intro: filter_cong)
  have one_others: "filter (\<lambda>d. userId d \<noteq> sub u \<and> userId d \<noteq> m) ?one
      = filter (\<lambda>d. userId d \<noteq> sub u \<and> userId d \<noteq> m) (userSettings s)"
    using updateOne_others [of "sub u" "\<lambda>d. userId d \<noteq> m" a ?c] c_others by simp
  have two_others: "filter (\<lambda>d. userId d \<noteq> sub u \<and> userId d \<noteq> m) ?two
      = filter (\<lambda>d. userId d \<noteq> sub u \<and> userId d \<noteq> m) (userSettings s)"
    using updateOne_others [of m "\<lambda>d. userId d \<noteq> sub u" a ?one] one_others
    by (simp add: conj_commute)
  have others: "filter (\<lambda>d. userId d \<noteq> sub u \<and> userId d \<noteq> m) ?fin
      = filter (\<lambda>d. userId d \<noteq> sub u \<and> userId d \<noteq> m) (userSettings s)"
  proof (cases "m = sub u")
    case True
    with one_others show ?thesis by simp
  next
    case False
    with two_others show ?thesis by simp
  qed
  have dist: "distinct (map userId (userSettings s)) \<longrightarrow> distinct (map userId ?fin)"
  proof
    assume "distinct (map userId (userSettings s))"
    then have "distinct (map userId ?c)"
      by (simp add: cleaned_def distinct_map_filter)
    then have "distinct (map userId ?one)"
      by (simp add: updateOne_keys)
    then show "distinct (map userId ?fin)"
      by (simp add: updateOne_keys)
  qed
  have c_rows: "set ?c \<subseteq> set (userSettings s)"
    by (auto simp: cleaned_def)
  have one_rows: "set ?one \<subseteq> set ?c \<union> {fresh (sub u) a}"
    using c_addr by (intro updateOne_rows) simp
  have two_rows: "set ?two \<subseteq> set ?one \<union> {fresh m a}"
    using one_addr by (intro updateOne_rows) simp
  have rows: "\<forall>d\<in>set ?fin. userId d = sub u \<or> userId d = m \<longrightarrow>
      d \<in> set (userSettings s)
      \<or> d = \<lparr>userId = userId d, emailNotifications = None, notificationEmail = Some a\<rparr>"
  proof (intro ballI impI)
    fix d assume "d \<in> set ?fin" and "userId d = sub u \<or> userId d = m"
    with c_rows one_rows two_rows
    have "d \<in> set (userSettings s) \<or> d = fresh (sub u) a \<or> d = fresh m a"
      by (auto split: if_splits)
    then show "d \<in> set (userSettings s)
      \<or> d = \<lparr>userId = userId d, emailNotifications = None, notificationEmail = Some a\<rparr>"
      by (auto simp: fresh_def)
  qed
  have flags: "\<forall>d\<in>set ?fin. userId d = sub u \<or> userId d = m \<longrightarrow> emailNotifications d = None"
    if new: "\<forall>d\<in>set (userSettings s).
        userId d = sub u \<or> userId d = m \<longrightarrow> notificationEmail d \<noteq> Some a"
  proof (intro ballI impI)
    fix d assume d: "d \<in> set ?fin" and k: "userId d = sub u \<or> userId d = m"
    from addr d k have "notificationEmail d = Some a" by blast
    with new k have "d \<notin> set (userSettings s)" by blast
    with rows d k
    have "d = \<lparr>userId = userId d, emailNotifications = None, notificationEmail = Some a\<rparr>"
      by blast
    then have "emailNotifications d
        = emailNotifications
            \<lparr>userId = userId d, emailNotifications = None, notificationEmail = Some a\<rparr>"
      by (rule arg_cong)
    then show "emailNotifications d = None" by simp
  qed
  show ?thesis
    unfolding Let_def solo_setEmail [OF assms(1,3,4)]
    using addr has_sub has_m others dist rows flags by simp
qed

text \<open>Witness: Alice's two rows carried \<open>old@example.com\<close>; both are replaced by rows
  with the new address and no \<open>emailNotifications\<close>, and Carol's row is as before.\<close>

theorem setEmail_replaces_address_witness:
  "userSettings (fst (solo [True, True, True]
        (SetEmail 3 (Some alice) (Some ''alice@work.com''))
        (server0\<lparr>userSettings := old_settings\<rparr>)))
   = [\<lparr>userId = ''carol@example.com'', emailNotifications = Some True,
       notificationEmail = Some ''old@example.com''\<rparr>,
      \<lparr>userId = ''1001'', emailNotifications = None,
       notificationEmail = Some ''alice@work.com''\<rparr>,
      \<lparr>userId = ''alice@example.com'', emailNotifications = None,
       notificationEmail = Some ''alice@work.com''\<rparr>]"
  using setEmail_replaces_address [of "''alice@work.com''" alice "''alice@example.com''" 3
      "server0\<lparr>userSettings := old_settings\<rparr>"]
  by (simp add: Let_def solo_Cons alice_def old_settings_def server0_def identities_def)

text \<open>
  Claim C7 as the spec states it has the rows that share the old address under other keys
  removed, so that no conflicting delivery target remains. Alice's address is
  \<open>alice@example.com\<close>, and two rows under keys that are not hers, \<open>0999\<close> and
  \<open>zed@example.com\<close>, name that address too. Alice sets the address
  \<open>alice@work.com\<close>: the two rows are still there with the old address, and the next
  webhook on Alice's endpoint is mailed to the old address (the lookup by
  \<open>notificationEmail\<close> finds the row of \<open>0999\<close>).
\<close>

theorem setEmail_keeps_row_under_other_key:
  "createdBy ep_alice = Some ''alice@example.com''
   \<and> userSettings (fst (solo [True, True, True]
        (SetEmail 3 (Some alice) (Some ''alice@work.com''))
        (server0\<lparr>userSettings := stale_settings\<rparr>)))
     = [\<lparr>userId = ''0999'', emailNotifications = Some True,
         notificationEmail = Some ''alice@example.com''\<rparr>,
        \<lparr>userId = ''zed@example.com'', emailNotifications = Some True,
         notificationEmail = Some ''alice@example.com''\<rparr>,
        \<lparr>userId = ''1001'', emailNotifications = None,
         notificationEmail = Some ''alice@work.com''\<rparr>,
        \<lparr>userId = ''alice@example.com'', emailNotifications = None,
         notificationEmail = Some ''alice@work.com''\<rparr>]
   \<and> map mail_to (mails (fst (solo [True, True, True, True, True, True, True, True, True]
        (Ingest (post ''e1'' 1 1 1000))
        (fst (solo [True, True, True]
           (SetEmail 3 (Some alice) (Some ''alice@work.com''))
           (server0\<lparr>userSettings := stale_settings\<rparr>))))))
     = [''alice@example.com'']"
  by (simp add: solo_Cons server0_def post_def ep_alice_def alice_def stale_settings_def
      identities_def truthy_def or_else_def sendWebhookNotification_def resolved_def
      reply_def userAgent_def data_def formatted_def respond_def broadcast_def
      mailOptions_def)

section \<open>The catch-up snapshot\<close>

lemma insort_key_last:
  "\<forall>y\<in>set ys. f y < f x \<Longrightarrow> insort_key f x ys = ys @ [x]"
  by (induction ys) auto

lemma sort_key_strict_rev:
  fixes f :: "'a \<Rightarrow> int"
  assumes "sorted_wrt (\<lambda>a b. f b < f a) xs"
  shows "sort_key f xs = rev xs"
  using assms
proof (induction xs)
  case Nil
  then show ?case by simp
next
  case (Cons x xs)
  then have "\<forall>y\<in>set (rev xs). f y < f x" by auto
  with Cons show ?case by (simp add: insort_key_last)
qed

lemma recent_length: "length (recentRequests a rs) \<le> 100"
  by (simp add: recentRequests_def)

lemma recent_sorted: "sorted_wrt (\<lambda>x y. timestamp y \<le> timestamp x) (recentRequests a rs)"
proof -
  let ?xs = "filter (\<lambda>r. matches a (endpointId r)) rs"
  have "sorted (map (\<lambda>r. - timestamp r) (sort_key (\<lambda>r. - timestamp r) ?xs))"
    by (rule sorted_sort_key)
  then have "sorted_wrt (\<lambda>x y. timestamp y \<le> timestamp x) (sort_key (\<lambda>r. - timestamp r) ?xs)"
    by (simp add: sorted_map)
  then show ?thesis
    unfolding recentRequests_def by (rule sorted_wrt_take)
qed

lemma recent_subset:
  "set (recentRequests a rs) \<subseteq> {r \<in> set rs. matches a (endpointId r)}"
proof -
  let ?xs = "filter (\<lambda>r. matches a (endpointId r)) rs"
  have "set (recentRequests a rs) \<subseteq> set (sort_key (\<lambda>r. - timestamp r) ?xs)"
    unfolding recentRequests_def by (rule set_take_subset)
  then show ?thesis by auto
qed

lemma recent_window:
  assumes "r \<in> set rs" "matches a (endpointId r)" "r \<notin> set (recentRequests a rs)"
  shows "length (recentRequests a rs) = 100
       \<and> (\<forall>x\<in>set (recentRequests a rs). timestamp r \<le> timestamp x)"
proof -
  let ?ys = "sort_key (\<lambda>r. - timestamp r) (filter (\<lambda>r. matches a (endpointId r)) rs)"
  have srt: "sorted_wrt (\<lambda>x y. timestamp y \<le> timestamp x) (take 100 ?ys @ drop 100 ?ys)"
    using sorted_sort_key [of "\<lambda>r. - timestamp r" "filter (\<lambda>r. matches a (endpointId r)) rs"]
    by (simp add: sorted_map)
  from assms have "r \<in> set ?ys" by simp
  then have "r \<in> set (take 100 ?ys) \<union> set (drop 100 ?ys)"
    by (metis append_take_drop_id set_append)
  with assms(3) have d: "r \<in> set (drop 100 ?ys)"
    by (simp add: recentRequests_def)
  then have "100 < length ?ys"
    by (cases "100 < length ?ys") auto
  then have len: "length (recentRequests a rs) = 100"
    by (simp add: recentRequests_def)
  from srt d have "\<forall>x\<in>set (take 100 ?ys). timestamp r \<le> timestamp x"
    unfolding sorted_wrt_append by blast
  with len show ?thesis by (simp add: recentRequests_def)
qed

lemma recent_all:
  assumes "length (filter (\<lambda>r. endpointId r = e) rs) \<le> 100"
  shows "mset (recentRequests (Text e) rs) = mset (filter (\<lambda>r. endpointId r = e) rs)"
  using assms by (simp add: recentRequests_def)

lemma recent_tail:
  assumes "sorted_wrt (\<lambda>a b. timestamp a < timestamp b) (filter (\<lambda>r. endpointId r = e) rs)"
  shows "recentRequests (Text e) rs
     = rev (drop (length (filter (\<lambda>r. endpointId r = e) rs) - 100)
              (filter (\<lambda>r. endpointId r = e) rs))"
proof -
  let ?xs = "filter (\<lambda>r. endpointId r = e) rs"
  from assms have "sorted_wrt (\<lambda>a b. - timestamp b < - timestamp a) ?xs"
    by simp
  then have "sort_key (\<lambda>r. - timestamp r) ?xs = rev ?xs"
    by (rule sort_key_strict_rev)
  then show ?thesis
    by (simp add: recentRequests_def take_rev)
qed

lemma solo_join:
  assumes "endpointsCollection s e = Some ep"
  shows "solo (True # ok # True # ok' # oks) (Join k (Text e)) s
     = (emit k (InitRequests (map formatted (recentRequests (Text e) (requestsCollection s))))
          (socket_join k e s), [Finished])"
  using assms by (simp add: solo_Cons)

text \<open>
  Claim C1, as the code has it. A join on an existing endpoint whose two store reads
  succeed emits one \<open>init_requests\<close> event to the joining socket. Its records are the
  stored requests of that endpoint, as they are when the read is carried out, cut to the
  100 with the latest timestamps and ordered newest first: at most 100; timestamps never
  increasing along the list; every entry a stored request of the endpoint; a stored
  request of the endpoint that is left out is no newer than any entry, and then there
  are exactly 100 entries; with at most 100 stored requests the snapshot holds each of
  them exactly once; and when the endpoint's requests were stored with strictly
  increasing timestamps, the snapshot is exactly the last 100 of them, in reverse.
\<close>

theorem join_snapshot:
  assumes "endpointsCollection s e = Some ep"
  shows "let xs = filter (\<lambda>r. endpointId r = e) (requestsCollection s);
             snap = recentRequests (Text e) (requestsCollection s);
             s' = fst (solo (True # ok # True # ok' # oks) (Join k (Text e)) s)
         in emitted s' = emitted s @ [(k, InitRequests (map formatted snap))]
          \<and> exec True (JoinRead k (Text e)) s = (JoinSend k (Text e) snap, s)
          \<and> length snap \<le> 100
          \<and> sorted_wrt (\<lambda>a b. timestamp b \<le> timestamp a) snap
          \<and> set snap \<subseteq> set xs
          \<and> (\<forall>r\<in>set xs. r \<notin> set snap \<longrightarrow>
                length snap = 100 \<and> (\<forall>x\<in>set snap. timestamp r \<le> timestamp x))
          \<and> (length xs \<le> 100 \<longrightarrow> mset snap = mset xs)
          \<and> (sorted_wrt (\<lambda>a b. timestamp a < timestamp b) xs \<longrightarrow>
                snap = rev (drop (length xs - 100) xs))"
proof -
  let ?rs = "requestsCollection s"
  let ?a = "Text e"
  have "\<forall>r\<in>set (filter (\<lambda>r. endpointId r = e) ?rs). r \<notin> set (recentRequests ?a ?rs) \<longrightarrow>
          length (recentRequests ?a ?rs) = 100
          \<and> (\<forall>x\<in>set (recentRequests ?a ?rs). timestamp r \<le> timestamp x)"
    using recent_window [of _ ?rs ?a] by auto
  moreover have "set (recentRequests ?a ?rs) \<subseteq> set (filter (\<lambda>r. endpointId r = e) ?rs)"
    using recent_subset [of ?a ?rs] by auto
  ultimately show ?thesis
    unfolding Let_def solo_join [OF assms]
    using recent_length [of ?a ?rs] recent_sorted [of ?a ?rs] recent_all [of e ?rs]
      recent_tail [of e ?rs]
    by simp
qed

text \<open>Witness: with the requests of 1000 and 2000 stored in that order, the snapshot is
  the one of 2000 followed by the one of 1000.\<close>

theorem join_snapshot_witness:
  "recentRequests (Text ''e1'') (requestsCollection server2)
     = [data (post ''e1'' 2 2 2000), data (post ''e1'' 1 1 1000)]
   \<and> emitted (fst (solo [True, True, True, True] (Join 7 (Text ''e1'')) server2))
     = [(7, InitRequests
              (map formatted (recentRequests (Text ''e1'') (requestsCollection server2))))]"
proof -
  have ep: "endpointsCollection server2 ''e1'' = Some ep_alice"
    by (simp add: server2_def server0_def)
  have inc: "sorted_wrt (\<lambda>a b. timestamp a < timestamp b)
      (filter (\<lambda>r. endpointId r = ''e1'') (requestsCollection server2))"
    by (simp add: server2_def data_def post_def)
  have xs: "filter (\<lambda>r. endpointId r = ''e1'') (requestsCollection server2)
      = [data (post ''e1'' 1 1 1000), data (post ''e1'' 2 2 2000)]"
    by (simp add: server2_def data_def post_def)
  from join_snapshot [OF ep, of True True "[]" 7] inc
  have "recentRequests (Text ''e1'') (requestsCollection server2)
          = rev (drop (length (filter (\<lambda>r. endpointId r = ''e1'') (requestsCollection server2)) - 100)
                  (filter (\<lambda>r. endpointId r = ''e1'') (requestsCollection server2)))"
    and "emitted (fst (solo [True, True, True, True] (Join 7 (Text ''e1'')) server2))
          = emitted server2
            @ [(7, InitRequests
                     (map formatted (recentRequests (Text ''e1'') (requestsCollection server2))))]"
    unfolding Let_def by blast+
  then show ?thesis
    by (simp add: xs) (simp add: server2_def server0_def)
qed

text \<open>
  Claim C1 as the spec states it asks for the snapshot oldest-to-newest. The handler sorts
  by \<open>timestamp: -1\<close> and sends the result as it is: after a webhook at 1000 and one at
  2000, the socket that joins is sent the one of 2000 first.
\<close>

theorem join_snapshot_newest_first:
  "emitted (fst (run one_after_another (server0, two_posts_and_join)))
     = [(7, InitRequests [formatted (data (post ''e1'' 2 2 2000)),
                          formatted (data (post ''e1'' 1 1 1000))])]
   \<and> map p_timestamp [formatted (data (post ''e1'' 2 2 2000)),
                       formatted (data (post ''e1'' 1 1 1000))] = [2000, 1000]"
  by (simp add: run_def one_after_another_def two_posts_and_join_def server0_def ep_alice_def
      post_def data_def formatted_def emit_def broadcast_def socket_join_def respond_def
      recentRequests_def truthy_def sendWebhookNotification_def or_else_def reply_def
      userAgent_def numeral_2_eq_2)

section \<open>Identifiers and the order of requests\<close>









section \<open>Joining while requests arrive\<close>

lemma in_upd: "x \<in> set (ts[i := t']) \<Longrightarrow> x = t' \<or> x \<in> set ts"
  using set_update_subset_insert [of ts i t'] by auto

lemma keep_upd:
  assumes "x \<in> set ts" "ts ! i \<noteq> x"
  shows "x \<in> set (ts[i := t'])"
proof -
  from assms(1) obtain j where j: "j < length ts" "ts ! j = x"
    by (auto simp: in_set_conv_nth)
  with assms(2) have "j \<noteq> i" by auto
  with j have "ts[i := t'] ! j = x" "j < length (ts[i := t'])" by simp_all
  then show ?thesis by (metis nth_mem)
qed

lemma live_mono: "live k r s \<Longrightarrow> set (emitted s) \<subseteq> set (emitted s') \<Longrightarrow> live k r s'"
  by (auto simp: live_def)

lemma caught_up_mono:
  "caught_up k r s \<Longrightarrow> set (emitted s) \<subseteq> set (emitted s') \<Longrightarrow> caught_up k r s'"
  by (auto simp: caught_up_def)

lemma told_failure_mono:
  "told_failure k s \<Longrightarrow> set (emitted s) \<subseteq> set (emitted s') \<Longrightarrow> told_failure k s'"
  by (auto simp: told_failure_def)

lemma pending_upd:
  assumes "pending r ts"
  shows "pending r (ts[i := t']) \<or> (\<exists>rq ep. ts ! i = IngestEmit rq ep \<and> data rq = r)"
proof -
  from assms obtain rq ep where p: "IngestEmit rq ep \<in> set ts" "data rq = r"
    by (auto simp: pending_def)
  show ?thesis
  proof (cases "ts ! i = IngestEmit rq ep")
    case True
    with p show ?thesis by auto
  next
    case False
    with p have "IngestEmit rq ep \<in> set (ts[i := t'])" by (simp add: keep_upd)
    with p show ?thesis by (auto simp: pending_def)
  qed
qed

lemma joining_upd:
  assumes "joining k e ts"
  shows "joining k e (ts[i := t']) \<or> ts ! i = JoinRead k (Text e) \<or> (\<exists>xs. ts ! i = JoinSend k (Text e) xs)"
proof -
  from assms consider "JoinRead k (Text e) \<in> set ts" | xs where "JoinSend k (Text e) xs \<in> set ts"
    by (auto simp: joining_def)
  then show ?thesis
  proof cases
    case 1
    then show ?thesis
      by (cases "ts ! i = JoinRead k (Text e)") (auto simp: joining_def keep_upd)
  next
    case 2
    then show ?thesis
      by (cases "ts ! i = JoinSend k (Text e) xs") (auto simp: joining_def dest: keep_upd)
  qed
qed

text \<open>One step of the pool, in general: what the new state and the new task have to
  satisfy for the invariant to be kept.\<close>

lemma consistent_frame:
  assumes inv: "consistent (s, ts)" and i: "i < length ts"
    and rooms_grow: "\<And>e. set (rooms s e) \<subseteq> set (rooms s' e)"
    and rooms_new: "\<And>k e. k \<in> set (rooms s' e) \<Longrightarrow> k \<in> set (rooms s e) \<or> t' = JoinRead k (Text e)"
    and reqs_new: "\<And>r. r \<in> set (requestsCollection s') \<Longrightarrow>
        r \<in> set (requestsCollection s) \<or> (\<exists>rq ep. t' = IngestEmit rq ep \<and> data rq = r)"
    and em: "set (emitted s) \<subseteq> set (emitted s')"
    and read_new: "\<And>k e. t' = JoinRead k (Text e) \<Longrightarrow> k \<in> set (rooms s' e)"
    and send_new: "\<And>k e xs. t' = JoinSend k (Text e) xs \<Longrightarrow>
        k \<in> set (rooms s' e)
        \<and> (\<forall>r\<in>set (requestsCollection s'). endpointId r = e \<longrightarrow> covers (map formatted xs) r)"
    and join_old: "\<And>k e. ts ! i = JoinRead k (Text e) \<or> (\<exists>xs. ts ! i = JoinSend k (Text e) xs) \<Longrightarrow>
        joining k e (ts[i := t']) \<or> JoinFail k \<in> set (ts[i := t']) 
        \<or> (\<forall>r\<in>set (requestsCollection s'). endpointId r = e \<longrightarrow>
              caught_up k r s' \<or> live k r s' \<or> pending r (ts[i := t']))"
    and fail_old: "\<And>k. ts ! i = JoinFail k \<Longrightarrow> told_failure k s'"
    and emit_old: "\<And>rq ep k. ts ! i = IngestEmit rq ep \<Longrightarrow> k \<in> set (rooms s (params_id rq)) \<Longrightarrow>
        live k (data rq) s'"
  shows "consistent (s', ts[i := t'])"
proof -
  let ?ts = "ts[i := t']"
  from i have new: "t' \<in> set ?ts" by (simp add: set_update_memI)
  from inv have A: "\<And>k e. JoinRead k (Text e) \<in> set ts \<Longrightarrow> k \<in> set (rooms s e)"
    and B: "\<And>k e xs. JoinSend k (Text e) xs \<in> set ts \<Longrightarrow> k \<in> set (rooms s e)
        \<and> (\<forall>r\<in>set (requestsCollection s). endpointId r = e \<longrightarrow>
              covers (map formatted xs) r \<or> live k r s \<or> pending r ts)"
    and C: "\<And>k e. k \<in> set (rooms s e) \<Longrightarrow>
        joining k e ts \<or> JoinFail k \<in> set ts \<or> told_failure k s
        \<or> (\<forall>r\<in>set (requestsCollection s). endpointId r = e \<longrightarrow>
              caught_up k r s \<or> live k r s \<or> pending r ts)"
    by (auto simp: consistent_def)
  text \<open>A request that was about to be broadcast is still so, or has just been broadcast.\<close>
  have served: "live k r s' \<or> pending r ?ts"
    if "live k r s \<or> pending r ts" "k \<in> set (rooms s e)" "endpointId r = e" for k r e
  proof -
    from that(1) consider "live k r s" | "pending r ts" by auto
    then show ?thesis
    proof cases
      case 1
      then show ?thesis using em by (auto intro: live_mono)
    next
      case 2
      from pending_upd [OF this, of i t'] show ?thesis
      proof
        assume "pending r ?ts" then show ?thesis by simp
      next
        assume "\<exists>rq ep. ts ! i = IngestEmit rq ep \<and> data rq = r"
        then obtain rq ep where "ts ! i = IngestEmit rq ep" "data rq = r" by auto
        with that(2,3) emit_old [of rq ep k] show ?thesis by auto
      qed
    qed
  qed
  have fresh: "pending r ?ts"
    if "r \<in> set (requestsCollection s')" "r \<notin> set (requestsCollection s)" for r
    using reqs_new [OF that(1)] that(2) new by (auto simp: pending_def)
  have A': "k \<in> set (rooms s' e)" if "JoinRead k (Text e) \<in> set ?ts" for k e
    using in_upd [OF that] read_new A rooms_grow by blast
  have B': "k \<in> set (rooms s' e)
        \<and> (\<forall>r\<in>set (requestsCollection s'). endpointId r = e \<longrightarrow>
              covers (map formatted xs) r \<or> live k r s' \<or> pending r ?ts)"
    if "JoinSend k (Text e) xs \<in> set ?ts" for k e xs
  proof -
    from in_upd [OF that] show ?thesis
    proof
      assume "JoinSend k (Text e) xs = t'"
      with send_new [of k e xs] show ?thesis by auto
    next
      assume old: "JoinSend k (Text e) xs \<in> set ts"
      from B [OF old] have k: "k \<in> set (rooms s e)"
        and cov: "\<And>r. r \<in> set (requestsCollection s) \<Longrightarrow> endpointId r = e \<Longrightarrow>
              covers (map formatted xs) r \<or> live k r s \<or> pending r ts"
        by auto
      have "covers (map formatted xs) r \<or> live k r s' \<or> pending r ?ts"
        if r: "r \<in> set (requestsCollection s')" "endpointId r = e" for r
      proof (cases "r \<in> set (requestsCollection s)")
        case True
        from cov [OF True r(2)] served [of k r e] k r(2) show ?thesis by blast
      next
        case False
        with fresh r show ?thesis by blast
      qed
      with k rooms_grow show ?thesis by blast
    qed
  qed
  have C': "joining k e ?ts \<or> JoinFail k \<in> set ?ts \<or> told_failure k s'
        \<or> (\<forall>r\<in>set (requestsCollection s'). endpointId r = e \<longrightarrow>
              caught_up k r s' \<or> live k r s' \<or> pending r ?ts)"
    if "k \<in> set (rooms s' e)" for k e
  proof -
    from rooms_new [OF that] show ?thesis
    proof
      assume "t' = JoinRead k (Text e)"
      with new show ?thesis by (auto simp: joining_def)
    next
      assume k: "k \<in> set (rooms s e)"
      from C [OF k] consider "joining k e ts" | "JoinFail k \<in> set ts" | "told_failure k s"
        | "\<forall>r\<in>set (requestsCollection s). endpointId r = e \<longrightarrow>
              caught_up k r s \<or> live k r s \<or> pending r ts"
        by blast
      then show ?thesis
      proof cases
        case 1
        from joining_upd [OF this, of i t'] join_old [of k e] show ?thesis by blast
      next
        case 2
        show ?thesis
        proof (cases "ts ! i = JoinFail k")
          case True
          with fail_old [of k] show ?thesis by auto
        next
          case False
          with 2 show ?thesis by (simp add: keep_upd)
        qed
      next
        case 3
        with em show ?thesis by (auto intro: told_failure_mono)
      next
        case 4
        have "caught_up k r s' \<or> live k r s' \<or> pending r ?ts"
          if r: "r \<in> set (requestsCollection s')" "endpointId r = e" for r
        proof (cases "r \<in> set (requestsCollection s)")
          case True
          with 4 r(2) have "caught_up k r s \<or> live k r s \<or> pending r ts" by blast
          with served [of k r e] k r(2) caught_up_mono [OF _ em] show ?thesis by blast
        next
          case False
          with fresh r show ?thesis by blast
        qed
        then show ?thesis by blast
      qed
    qed
  qed
  from A' B' C' show ?thesis
    unfolding consistent_def by (simp only: prod.case) blast
qed


lemma covers_recent:
  assumes "r \<in> set rs" "endpointId r = e"
  shows "covers (map formatted (recentRequests (Text e) rs)) r"
proof (cases "r \<in> set (recentRequests (Text e) rs)")
  case True
  then show ?thesis by (simp add: covers_def)
next
  case False
  from assms have "matches (Text e) (endpointId r)" by simp
  from recent_window [OF assms(1) this False] show ?thesis by (simp add: covers_def)
qed

lemma consistent_exec:
  assumes inv: "consistent (s, ts)" and i: "i < length ts"
  shows "consistent (snd (exec ok (ts ! i) s), ts[i := fst (exec ok (ts ! i) s)])"
proof -
  from i have mem: "ts ! i \<in> set ts" by simp
  from i have new: "\<And>t'. t' \<in> set (ts[i := t'])" by (simp add: set_update_memI)
  from inv have A: "\<And>k e. JoinRead k (Text e) \<in> set ts \<Longrightarrow> k \<in> set (rooms s e)"
    and B: "\<And>k e xs. JoinSend k (Text e) xs \<in> set ts \<Longrightarrow> k \<in> set (rooms s e)
        \<and> (\<forall>r\<in>set (requestsCollection s). endpointId r = e \<longrightarrow>
              covers (map formatted xs) r \<or> live k r s \<or> pending r ts)"
    by (auto simp: consistent_def split: if_splits option.splits)
  show ?thesis
  proof (cases "ts ! i")
    case (Join k a)
    show ?thesis
      by (rule consistent_frame [OF inv i]) (auto simp: Join split: if_splits option.splits)
  next
    case (Arrive rq)
    show ?thesis
      by (rule consistent_frame [OF inv i]) (auto simp: Arrive split: if_splits option.splits)
  next
    case (JoinFound k a found)
    show ?thesis
      by (rule consistent_frame [OF inv i])
         (auto simp: JoinFound socket_join_rooms split: if_splits argument.splits)
  next
    case read: (JoinRead k a)
    show ?thesis
    proof (cases a)
      case (Text e)
      with read mem A have k: "k \<in> set (rooms s e)" by auto
      note JoinRead = read [unfolded Text]
      show ?thesis
      proof (rule consistent_frame [OF inv i])
        fix k' e' xs
        assume "fst (exec ok (ts ! i) s) = JoinSend k' (Text e') xs"
        with k show "k' \<in> set (rooms (snd (exec ok (ts ! i) s)) e')
            \<and> (\<forall>r\<in>set (requestsCollection (snd (exec ok (ts ! i) s))).
                  endpointId r = e' \<longrightarrow> covers (map formatted xs) r)"
          by (auto simp: JoinRead covers_recent split: if_splits)
      next
        fix k' e'
        assume "ts ! i = JoinRead k' (Text e') \<or> (\<exists>xs. ts ! i = JoinSend k' (Text e') xs)"
        with new [of "fst (exec ok (ts ! i) s)"]
        show "joining k' e' (ts[i := fst (exec ok (ts ! i) s)])
            \<or> JoinFail k' \<in> set (ts[i := fst (exec ok (ts ! i) s)])
            \<or> (\<forall>r\<in>set (requestsCollection (snd (exec ok (ts ! i) s))). endpointId r = e' \<longrightarrow>
                  caught_up k' r (snd (exec ok (ts ! i) s)) \<or> live k' r (snd (exec ok (ts ! i) s))
                  \<or> pending r (ts[i := fst (exec ok (ts ! i) s)]))"
          by (auto simp: JoinRead joining_def split: if_splits)
      qed (auto simp: JoinRead split: if_splits option.splits)
    next
      case (Operator P)
      show ?thesis
        by (rule consistent_frame [OF inv i]) (auto simp: read Operator split: if_splits)
    next
      case Other
      show ?thesis
        by (rule consistent_frame [OF inv i]) (auto simp: read Other split: if_splits)
    qed
  next
    case send: (JoinSend k a xs)
    show ?thesis
    proof (cases a)
      case (Text e)
      note JoinSend = send [unfolded Text]
      with mem B [of k e xs] have k: "k \<in> set (rooms s e)"
        and cov: "\<And>r. r \<in> set (requestsCollection s) \<Longrightarrow> endpointId r = e \<Longrightarrow>
                covers (map formatted xs) r \<or> live k r s \<or> pending r ts"
        by auto
      show ?thesis
      proof (rule consistent_frame [OF inv i])
        fix k' e'
        assume "ts ! i = JoinRead k' (Text e') \<or> (\<exists>xs. ts ! i = JoinSend k' (Text e') xs)"
        then have same: "k' = k" "e' = e" by (auto simp: JoinSend split: if_splits option.splits)
        have "caught_up k r (snd (exec ok (ts ! i) s)) \<or> live k r (snd (exec ok (ts ! i) s))
              \<or> pending r (ts[i := fst (exec ok (ts ! i) s)])"
          if r: "r \<in> set (requestsCollection s)" "endpointId r = e" for r
        proof -
          from cov [OF r] consider "covers (map formatted xs) r" | "live k r s" | "pending r ts"
            by blast
          then show ?thesis
          proof cases
            case 1
            then show ?thesis by (auto simp: JoinSend caught_up_def split: if_splits option.splits)
          next
            case 2
            then show ?thesis by (auto simp: JoinSend live_def split: if_splits option.splits)
          next
            case 3
            from pending_upd [OF this, of i] show ?thesis
              by (auto simp: JoinSend split: if_splits option.splits)
          qed
        qed
        then show "joining k' e' (ts[i := fst (exec ok (ts ! i) s)])
            \<or> JoinFail k' \<in> set (ts[i := fst (exec ok (ts ! i) s)])
            \<or> (\<forall>r\<in>set (requestsCollection (snd (exec ok (ts ! i) s))). endpointId r = e' \<longrightarrow>
                  caught_up k' r (snd (exec ok (ts ! i) s)) \<or> live k' r (snd (exec ok (ts ! i) s))
                  \<or> pending r (ts[i := fst (exec ok (ts ! i) s)]))"
          by (simp add: same) (simp add: JoinSend)
      qed (auto simp: JoinSend split: if_splits option.splits)
    next
      case (Operator P)
      show ?thesis
        by (rule consistent_frame [OF inv i]) (auto simp: send Operator)
    next
      case Other
      show ?thesis
        by (rule consistent_frame [OF inv i]) (auto simp: send Other)
    qed
  next
    case (JoinFail k)
    show ?thesis
      by (rule consistent_frame [OF inv i]) (auto simp: JoinFail told_failure_def split: if_splits option.splits)
  next
    case (Ingest rq)
    show ?thesis
      by (rule consistent_frame [OF inv i]) (auto simp: Ingest split: if_splits option.splits)
  next
    case (IngestFound rq found)
    show ?thesis
      by (rule consistent_frame [OF inv i]) (auto simp: IngestFound split: option.splits)
  next
    case (IngestInsert rq ep)
    show ?thesis
      by (rule consistent_frame [OF inv i]) (auto simp: IngestInsert split: if_splits)
  next
    case (IngestEmit rq ep)
    have quiet: "\<forall>k e. fst (exec ok (ts ! i) s) \<noteq> JoinRead k (Text e)"
      "\<forall>k e xs. fst (exec ok (ts ! i) s) \<noteq> JoinSend k (Text e) xs"
      "\<forall>rq ep. fst (exec ok (ts ! i) s) \<noteq> IngestEmit rq ep"
      by (auto simp: IngestEmit sendWebhookNotification_def split: if_splits option.splits)
    show ?thesis
      by (rule consistent_frame [OF inv i]) (use quiet in \<open>auto simp: IngestEmit live_def split: if_splits\<close>)
  next
    case (IngestFail rq)
    show ?thesis
      by (rule consistent_frame [OF inv i]) (auto simp: IngestFail split: if_splits option.splits)
  next
    case (NotifyBySub n)
    show ?thesis
      by (rule consistent_frame [OF inv i])
         (auto simp: NotifyBySub resolved_def split: if_splits option.splits)
  next
    case (NotifyByAddress n)
    show ?thesis
      by (rule consistent_frame [OF inv i])
         (auto simp: NotifyByAddress resolved_def split: if_splits option.splits)
  next
    case (NotifyByKey n)
    show ?thesis
      by (rule consistent_frame [OF inv i])
         (auto simp: NotifyByKey resolved_def split: if_splits option.splits)
  next
    case (NotifyEndpoint n a)
    show ?thesis
      by (rule consistent_frame [OF inv i]) (auto simp: NotifyEndpoint split: if_splits)
  next
    case (NotifySend n)
    show ?thesis
      by (rule consistent_frame [OF inv i]) (auto simp: NotifySend split: if_splits option.splits)
  next
    case (Delete c auth e)
    show ?thesis
      by (rule consistent_frame [OF inv i]) (auto simp: Delete split: if_splits option.splits)
  next
    case (DeleteMany c e)
    show ?thesis
      by (rule consistent_frame [OF inv i]) (auto simp: DeleteMany split: if_splits)
  next
    case (SetEmail c auth posted)
    show ?thesis
      by (rule consistent_frame [OF inv i]) (auto simp: SetEmail split: if_splits option.splits)
  next
    case (SetEmailSub c u a)
    show ?thesis
      by (rule consistent_frame [OF inv i])
         (auto simp: SetEmailSub Let_def split: if_splits option.splits)
  next
    case (SetEmailKey c m a)
    show ?thesis
      by (rule consistent_frame [OF inv i]) (auto simp: SetEmailKey split: if_splits)
  next
    case Finished
    show ?thesis
      by (rule consistent_frame [OF inv i]) (auto simp: Finished split: if_splits option.splits)
  qed
qed

lemma consistent_step:
  assumes "consistent c"
  shows "consistent (step a c)"
proof -
  obtain i ok s ts where a: "a = (i, ok)" and c: "c = (s, ts)"
    by (cases a, cases c) auto
  show ?thesis
  proof (cases "i < length ts")
    case True
    with assms consistent_exec [of s ts i ok] show ?thesis
      unfolding a c by (simp only: step_eq)
  next
    case False
    with assms show ?thesis
      unfolding a c by simp
  qed
qed

lemma consistent_start:
  assumes "\<forall>e. rooms s e = []" and "\<forall>t\<in>set ts. unstarted t"
  shows "consistent (s, ts)"
  using assms by (auto simp: consistent_def)

text \<open>
  Claim C2, as the code has it. Start from a server with empty rooms and a pool of
  handlers that have not started, and let them run in any interleaving, with any store
  failures. Then at every moment the invariant \<open>consistent\<close> holds; in particular a
  join that is waiting for its snapshot read, or holds its snapshot, has its socket in
  the room already (the room is entered before the snapshot is read). And once every
  handler has finished, for every member \<open>k\<close> of the room of \<open>e\<close> and every stored
  request \<open>r\<close> of \<open>e\<close>: \<open>r\<close> was broadcast to \<open>k\<close>, or \<open>k\<close> was sent a snapshot
  that contains \<open>r\<close> or is full with 100 records at least as new as \<open>r\<close>, or \<open>k\<close>
  was sent the error event of a failed join. Nothing excludes that \<open>r\<close> is sent both
  ways.
\<close>

theorem no_silent_gap:
  assumes "\<forall>e. rooms s0 e = []" and "\<forall>t\<in>set ts0. unstarted t"
    and "run sched (s0, ts0) = (s, ts)"
  shows "consistent (s, ts)
       \<and> (\<forall>k e. JoinRead k (Text e) \<in> set ts \<longrightarrow> k \<in> set (rooms s e))
       \<and> (\<forall>k e xs. JoinSend k (Text e) xs \<in> set ts \<longrightarrow> k \<in> set (rooms s e))
       \<and> ((\<forall>t\<in>set ts. t = Finished) \<longrightarrow>
            (\<forall>k e. k \<in> set (rooms s e) \<longrightarrow>
               (\<forall>r\<in>set (requestsCollection s). endpointId r = e \<longrightarrow>
                  live k r s \<or> caught_up k r s \<or> told_failure k s)))"
proof -
  have "consistent (run sched (s0, ts0))"
    by (rule run_invariant [of consistent, OF consistent_step consistent_start [OF assms(1,2)]])
  with assms(3) have inv: "consistent (s, ts)" by simp
  have final: "live k r s \<or> caught_up k r s \<or> told_failure k s"
    if fin: "\<forall>t\<in>set ts. t = Finished" and k: "k \<in> set (rooms s e)"
      and r: "r \<in> set (requestsCollection s)" "endpointId r = e" for k e r
  proof -
    from fin have "\<not> joining k e ts" "JoinFail k \<notin> set ts" "\<not> pending r ts"
      by (auto simp: joining_def pending_def)
    with inv k r show ?thesis
      unfolding consistent_def by (simp only: prod.case) blast
  qed
  from inv have "\<forall>k e. JoinRead k (Text e) \<in> set ts \<longrightarrow> k \<in> set (rooms s e)"
    and "\<forall>k e xs. JoinSend k (Text e) xs \<in> set ts \<longrightarrow> k \<in> set (rooms s e)"
    unfolding consistent_def by (simp only: prod.case, blast)+
  with inv final show ?thesis by blast
qed

lemma run_race:
  "run race (server0, join_and_post)
     = (server0\<lparr>requestsCollection := [data (post ''e1'' 1 1 1000)],
               rooms := (rooms server0)(''e1'' := [7]),
               emitted := [(7, NewRequest (formatted (data (post ''e1'' 1 1 1000)))),
                           (7, InitRequests [formatted (data (post ''e1'' 1 1 1000))])],
               responses := [(1, Received)]\<rparr>,
        [Finished, Finished])"
  by (simp add: run_def race_def join_and_post_def server0_def ep_alice_def post_def
      emit_def broadcast_def socket_join_def respond_def recentRequests_def truthy_def
      sendWebhookNotification_def resolved_def or_else_def reply_def userAgent_def)

text \<open>Witness: in the race of the example both handlers finish, socket 7 is in the room of
  \<open>e1\<close>, and the stored request was sent to it.\<close>

theorem no_silent_gap_witness:
  "snd (run race (server0, join_and_post)) = [Finished, Finished]
   \<and> 7 \<in> set (rooms (fst (run race (server0, join_and_post))) ''e1'')
   \<and> (live 7 (data (post ''e1'' 1 1 1000)) (fst (run race (server0, join_and_post)))
      \<or> caught_up 7 (data (post ''e1'' 1 1 1000)) (fst (run race (server0, join_and_post)))
      \<or> told_failure 7 (fst (run race (server0, join_and_post))))"
proof -
  let ?c = "run race (server0, join_and_post)"
  have start: "\<forall>e. rooms server0 e = []" "\<forall>t\<in>set join_and_post. unstarted t"
    by (simp_all add: server0_def join_and_post_def)
  have fin: "snd ?c = [Finished, Finished]"
    and k: "7 \<in> set (rooms (fst ?c) ''e1'')"
    and r: "data (post ''e1'' 1 1 1000) \<in> set (requestsCollection (fst ?c))"
    by (simp_all add: run_race)
  from fin have all: "\<forall>t\<in>set (snd ?c). t = Finished" by simp
  have e: "endpointId (data (post ''e1'' 1 1 1000)) = ''e1''"
    by (simp add: post_def)
  from no_silent_gap [OF start, of race "fst ?c" "snd ?c"] all k r e
  have "live 7 (data (post ''e1'' 1 1 1000)) (fst ?c)
      \<or> caught_up 7 (data (post ''e1'' 1 1 1000)) (fst ?c) \<or> told_failure 7 (fst ?c)"
    by auto
  with fin k show ?thesis by simp
qed

lemma backlog_ids: "map rid (drop 1 backlog) = [1..<101]"
proof -
  have "drop 1 backlog = map (\<lambda>i. data (post ''e1'' i i (int i))) [1..<101]"
    by (simp add: backlog_def drop_map)
  then show ?thesis
    by (simp add: post_def o_def)
qed

lemma backlog_recent: "recentRequests (Text ''e1'') backlog = rev (drop 1 backlog)"
proof -
  have all: "filter (\<lambda>r. endpointId r = ''e1'') backlog = backlog"
    by (simp add: backlog_def post_def)
  have len: "length backlog = 101"
    by (simp add: backlog_def)
  have "sorted_wrt (\<lambda>a b. timestamp a < timestamp b) backlog"
    by (simp add: backlog_def sorted_wrt_map post_def)
  with recent_tail [of "''e1''" backlog] all len show ?thesis
    by simp
qed


lemma server101_endpoint: "endpointsCollection server101 ''e1'' = Some ep_alice"
    by (simp add: server101_def server0_def)

lemma server101_fields: "requestsCollection server101 = backlog" "emitted server101 = []"
    by (simp_all add: server101_def server0_def)

lemma backlog_snapshot: "emitted (fst (solo [True, True, True, True] (Join 7 (Text ''e1'')) server101))
      = [(7, InitRequests (map formatted (rev (drop 1 backlog))))]"
    by (simp add: solo_join [OF server101_endpoint] server101_fields backlog_recent)

lemma backlog_oldest_stored: "data (post ''e1'' 0 0 0) \<in> set (requestsCollection server101)"
proof -
  have "data (post ''e1'' 0 0 (int 0)) \<in> (\<lambda>i. data (post ''e1'' i i (int i))) ` set [0..<101]"
    by (rule imageI) simp
  then show ?thesis
    by (simp add: server101_fields backlog_def)
qed


lemma backlog_oldest_left_out: "formatted (data (post ''e1'' 0 0 0)) \<notin> set (map formatted (rev (drop 1 backlog)))"
proof
  assume "formatted (data (post ''e1'' 0 0 0)) \<in> set (map formatted (rev (drop 1 backlog)))"
  then obtain x where x: "x \<in> set (drop 1 backlog)"
    and eq: "formatted x = formatted (data (post ''e1'' 0 0 0))"
    by auto
  from eq have "p_id (formatted x) = p_id (formatted (data (post ''e1'' 0 0 0)))"
    by (rule arg_cong)
  then have "rid x = 0"
    by (simp add: post_def)
  moreover from x have "rid x \<in> set (map rid (drop 1 backlog))"
    by (simp only: set_map) (rule imageI)
  ultimately show False
    unfolding backlog_ids by simp
qed

text \<open>
  Claim C2 as the spec states it fails in two ways. (1) In the race of the example the
  one webhook is sent to socket 7 twice, live and in the snapshot that follows. (2) On
  the server with 101 stored requests, socket 7 joins: it is sent the snapshot of the
  requests of the times 100 down to 1 and nothing else, so the stored request of time 0
  is neither in the snapshot nor broadcast to it.
\<close>

theorem join_duplicates_and_window:
  "emitted (fst (run race (server0, join_and_post)))
     = [(7, NewRequest (formatted (data (post ''e1'' 1 1 1000)))),
        (7, InitRequests [formatted (data (post ''e1'' 1 1 1000))])]
   \<and> data (post ''e1'' 0 0 0) \<in> set (requestsCollection server101)
   \<and> emitted (fst (solo [True, True, True, True] (Join 7 (Text ''e1'')) server101))
     = [(7, InitRequests (map formatted (rev (drop 1 backlog))))]
   \<and> formatted (data (post ''e1'' 0 0 0)) \<notin> set (map formatted (rev (drop 1 backlog)))"
proof -
  have "emitted (fst (run race (server0, join_and_post)))
     = [(7, NewRequest (formatted (data (post ''e1'' 1 1 1000)))),
        (7, InitRequests [formatted (data (post ''e1'' 1 1 1000))])]"
    by (simp add: run_race)
  with backlog_oldest_stored backlog_snapshot backlog_oldest_left_out show ?thesis
    by (intro conjI)
qed



section \<open>Deliveries stay within the endpoint\<close>

lemma addressed_mono:
  assumes "addressed R0 W s k p" "\<And>e. set (rooms s e) \<subseteq> set (rooms s' e)"
  shows "addressed R0 W s' k p"
  using assms unfolding addressed_def by blast

lemma addressed_frame [simp]:
  "addressed R0 W (emit k' ev s) k p = addressed R0 W s k p"
  "addressed R0 W (broadcast e ev s) k p = addressed R0 W s k p"
  "addressed R0 W (respond c r s) k p = addressed R0 W s k p"
  by (simp_all add: addressed_def)

lemma event_traced_mono:
  assumes "event_traced R0 W s kev" "\<And>e. set (rooms s e) \<subseteq> set (rooms s' e)"
  shows "event_traced R0 W s' kev"
proof -
  obtain k ev where kev: "kev = (k, ev)" by (cases kev)
  show ?thesis
    using assms unfolding kev
    by (cases ev) (auto intro: addressed_mono)
qed

lemma task_traced_mono:
  assumes "task_traced R0 W s t" "\<And>e. set (rooms s e) \<subseteq> set (rooms s' e)"
  shows "task_traced R0 W s' t"
  using assms by (cases t) (auto split: argument.splits)

lemma traced_frame:
  assumes inv: "traced R0 W (s, ts)" and i: "i < length ts"
    and rooms_grow: "\<And>e. set (rooms s e) \<subseteq> set (rooms s' e)"
    and task_new: "task_traced R0 W s' t'"
    and reqs_new: "\<And>r. r \<in> set (requestsCollection s') \<Longrightarrow>
        r \<in> set (requestsCollection s) \<or> known R0 W r"
    and events_new: "\<And>kev. kev \<in> set (emitted s') \<Longrightarrow>
        kev \<in> set (emitted s) \<or> event_traced R0 W s' kev"
  shows "traced R0 W (s', ts[i := t'])"
proof -
  from inv have T: "\<And>t. t \<in> set ts \<Longrightarrow> task_traced R0 W s t"
    and R: "\<And>r. r \<in> set (requestsCollection s) \<Longrightarrow> known R0 W r"
    and E: "\<And>kev. kev \<in> set (emitted s) \<Longrightarrow> event_traced R0 W s kev"
    by (auto simp: traced_def)
  have "task_traced R0 W s' t" if "t \<in> set (ts[i := t'])" for t
    using in_upd [OF that] task_new T task_traced_mono [OF _ rooms_grow] by blast
  moreover have "known R0 W r" if "r \<in> set (requestsCollection s')" for r
    using reqs_new [OF that] R by blast
  moreover have "event_traced R0 W s' kev" if "kev \<in> set (emitted s')" for kev
    using events_new [OF that] E event_traced_mono [OF _ rooms_grow] by blast
  ultimately show ?thesis
    unfolding traced_def by (simp only: prod.case) blast
qed

lemma traced_exec:
  assumes inv: "traced R0 W (s, ts)" and i: "i < length ts"
  shows "traced R0 W (snd (exec ok (ts ! i) s), ts[i := fst (exec ok (ts ! i) s)])"
proof -
  from i have mem: "ts ! i \<in> set ts" by simp
  with inv have old: "task_traced R0 W s (ts ! i)"
    by (auto simp: traced_def)
  from inv have R: "\<And>r. r \<in> set (requestsCollection s) \<Longrightarrow> known R0 W r"
    by (auto simp: traced_def)
  show ?thesis
  proof (cases "ts ! i")
    case (Join k a)
    with old show ?thesis
      by - (rule traced_frame [OF inv i],
            auto simp: Join endpointExists_def split: if_splits argument.splits)
  next
    case (JoinFound k a found)
    with old show ?thesis
      by - (rule traced_frame [OF inv i],
            auto simp: JoinFound socket_join_rooms split: if_splits argument.splits)
  next
    case (JoinRead k a)
    with old obtain e where a: "a = Text e" and k: "k \<in> set (rooms s e)"
      by (cases a) auto
    have "known R0 W x" "endpointId x = e"
      if "x \<in> set (recentRequests (Text e) (requestsCollection s))" for x
      using that recent_subset [of "Text e" "requestsCollection s"] R by auto
    with k show ?thesis
      by - (rule traced_frame [OF inv i], auto simp: JoinRead a split: if_splits)
  next
    case (JoinSend k a xs)
    with old obtain e where a: "a = Text e" and k: "k \<in> set (rooms s e)"
      and xs: "\<And>x. x \<in> set xs \<Longrightarrow> endpointId x = e \<and> known R0 W x"
      by (cases a) auto
    have "addressed R0 W s k (formatted x)" if "x \<in> set xs" for x
      using xs [OF that] k unfolding addressed_def by blast
    then have "\<forall>p\<in>set (map formatted xs). addressed R0 W s k p"
      by auto
    then show ?thesis
      by - (rule traced_frame [OF inv i], auto simp: JoinSend split: if_splits)
  next
    case (IngestEmit rq ep)
    with old have "known R0 W (data rq)"
      by (auto simp: known_def)
    then have "\<forall>k\<in>set (rooms s (params_id rq)). addressed R0 W s k (formatted (data rq))"
      unfolding addressed_def by auto
    moreover have "task_traced R0 W s' (fst (exec ok (ts ! i) s))" for s'
      by (simp add: IngestEmit sendWebhookNotification_def)
    ultimately show ?thesis
      by - (rule traced_frame [OF inv i], auto simp: IngestEmit split: if_splits)
  next
    case (NotifyBySub n)
    show ?thesis
      by (rule traced_frame [OF inv i])
         (auto simp: NotifyBySub resolved_def split: if_splits option.splits)
  next
    case (NotifyByAddress n)
    show ?thesis
      by (rule traced_frame [OF inv i])
         (auto simp: NotifyByAddress resolved_def split: if_splits option.splits)
  next
    case (NotifyByKey n)
    show ?thesis
      by (rule traced_frame [OF inv i])
         (auto simp: NotifyByKey resolved_def split: if_splits option.splits)
  next
    case (SetEmailSub c u a)
    show ?thesis
      by (rule traced_frame [OF inv i])
         (auto simp: SetEmailSub Let_def split: if_splits option.splits)
  next
    case (JoinFail k)
    show ?thesis
      by (rule traced_frame [OF inv i]) (auto simp: JoinFail)
  next
    case (Arrive rq)
    with old show ?thesis
      by - (rule traced_frame [OF inv i], auto simp: Arrive split: if_splits option.splits)
  next
    case (Ingest rq)
    with old show ?thesis
      by - (rule traced_frame [OF inv i], auto simp: Ingest split: if_splits)
  next
    case (IngestFound rq found)
    with old show ?thesis
      by - (rule traced_frame [OF inv i], auto simp: IngestFound split: option.splits)
  next
    case (IngestInsert rq ep)
    with old show ?thesis
      by - (rule traced_frame [OF inv i], auto simp: IngestInsert known_def split: if_splits)
  next
    case (IngestFail rq)
    show ?thesis
      by (rule traced_frame [OF inv i]) (auto simp: IngestFail)
  next
    case (NotifyEndpoint n a)
    show ?thesis
      by (rule traced_frame [OF inv i]) (auto simp: NotifyEndpoint split: if_splits)
  next
    case (NotifySend n)
    show ?thesis
      by (rule traced_frame [OF inv i]) (auto simp: NotifySend)
  next
    case (Delete c auth e)
    show ?thesis
      by (rule traced_frame [OF inv i]) (auto simp: Delete split: if_splits option.splits)
  next
    case (DeleteMany c e)
    show ?thesis
      by (rule traced_frame [OF inv i]) (auto simp: DeleteMany split: if_splits)
  next
    case (SetEmail c auth posted)
    show ?thesis
      by (rule traced_frame [OF inv i]) (auto simp: SetEmail split: if_splits option.splits)
  next
    case (SetEmailKey c m a)
    show ?thesis
      by (rule traced_frame [OF inv i]) (auto simp: SetEmailKey split: if_splits)
  next
    case Finished
    show ?thesis
      by (rule traced_frame [OF inv i]) (auto simp: Finished)
  qed
qed

lemma traced_step:
  assumes "traced R0 W c"
  shows "traced R0 W (step a c)"
proof -
  obtain i ok s ts where a: "a = (i, ok)" and c: "c = (s, ts)"
    by (cases a, cases c) auto
  show ?thesis
  proof (cases "i < length ts")
    case True
    with assms traced_exec [of R0 W s ts i ok] show ?thesis
      unfolding a c by (simp only: step_eq)
  next
    case False
    with assms show ?thesis
      unfolding a c by simp
  qed
qed

lemma traced_start:
  assumes "emitted s = []" and "\<forall>t\<in>set ts. unstarted t \<and> plain t"
  shows "traced (set (requestsCollection s)) (webhooks ts) (s, ts)"
proof -
  have "task_traced (set (requestsCollection s)) (webhooks ts) s t" if t: "t \<in> set ts" for t
  proof -
    from t assms(2) have "unstarted t" "plain t" by blast+
    with t show ?thesis
      by (cases t rule: task.exhaust) (auto simp: webhooks_def split: argument.splits)
  qed
  with assms(1) show ?thesis
    by (simp add: traced_def known_def)
qed

text \<open>
  Deliveries stay within the endpoint as long as every join carries a string. Start
  from a server that has sent no events, with any stored
  requests and any room members, and a pool of handlers that have not started and whose
  joins carry no operator object; let them run in any interleaving, with any store
  failures. Then every record a socket \<open>k\<close> has been sent, as a \<open>new_request\<close>
  event or inside an \<open>init_requests\<close> snapshot, is a record that was stored at the
  start or is the record of a webhook of the pool, and \<open>k\<close> is in the room of the
  endpoint that the record carries.
\<close>

lemma delivered_to_room_members:
  assumes "emitted s0 = []" and "\<forall>t\<in>set ts0. unstarted t \<and> plain t"
    and "run sched (s0, ts0) = (s, ts)"
  shows "(\<forall>k p. (k, NewRequest p) \<in> set (emitted s) \<longrightarrow>
            (\<exists>r. known (set (requestsCollection s0)) (webhooks ts0) r \<and> p = formatted r
                 \<and> k \<in> set (rooms s (endpointId r))))
       \<and> (\<forall>k ps. (k, InitRequests ps) \<in> set (emitted s) \<longrightarrow>
            (\<forall>p\<in>set ps. \<exists>r. known (set (requestsCollection s0)) (webhooks ts0) r
                 \<and> p = formatted r \<and> k \<in> set (rooms s (endpointId r))))
       \<and> (\<forall>r\<in>set (requestsCollection s). known (set (requestsCollection s0)) (webhooks ts0) r)"
proof -
  let ?R = "set (requestsCollection s0)" and ?W = "webhooks ts0"
  have "traced ?R ?W (run sched (s0, ts0))"
    by (rule run_invariant [of "traced ?R ?W", OF traced_step traced_start [OF assms(1,2)]])
  with assms(3) have inv: "traced ?R ?W (s, ts)" by simp
  then have E: "\<And>kev. kev \<in> set (emitted s) \<Longrightarrow> event_traced ?R ?W s kev"
    and R: "\<forall>r\<in>set (requestsCollection s). known ?R ?W r"
    by (auto simp: traced_def)
  have "addressed ?R ?W s k p" if "(k, NewRequest p) \<in> set (emitted s)" for k p
    using E [OF that] by simp
  moreover have "\<forall>p\<in>set ps. addressed ?R ?W s k p"
    if "(k, InitRequests ps) \<in> set (emitted s)" for k ps
    using E [OF that] by simp
  ultimately show ?thesis
    using R unfolding addressed_def by blast
qed

text \<open>An example with two endpoints: socket 7 joins \<open>e1\<close> on the server that holds a
  request of \<open>e1\<close> and one of \<open>e2\<close>, then a webhook arrives on each endpoint. Socket 7
  is sent the stored request of \<open>e1\<close> and the new one of \<open>e1\<close>, and nothing of
  \<open>e2\<close>.\<close>

lemma joined_by_name:
  "emitted (fst (run three_in_turn (server3, join_and_two_posts)))
     = [(7, InitRequests [formatted (data (post ''e1'' 1 1 1000))]),
        (7, NewRequest (formatted (data (post ''e1'' 1 3 3000))))]
   \<and> map endpointId (requestsCollection (fst (run three_in_turn (server3, join_and_two_posts))))
     = [''e1'', ''e2'', ''e1'', ''e2'']"
  by (simp add: run_def three_in_turn_def join_and_two_posts_def server3_def server0_def
      ep_alice_def ep_bob_def post_def data_def formatted_def emit_def broadcast_def
      socket_join_def respond_def recentRequests_def truthy_def sendWebhookNotification_def
      or_else_def reply_def userAgent_def)

text \<open>
  Claim C10 asks that a subscriber is sent only records that were ingested on the
  endpoint it joined. The join handler puts its argument into the filters
  \<open>{ _id: endpointId }\<close> and \<open>{ endpointId }\<close> without checking that it is a string.
  Socket 9 sends \<open>join\<close> with the object \<open>{ $ne: null }\<close> to the server that holds a
  request of Alice's endpoint \<open>e1\<close> and a request of Bob's endpoint \<open>e2\<close>: the lookup
  finds an endpoint, the socket enters no room of an endpoint, and the snapshot it is
  sent holds the requests of both endpoints.
\<close>

theorem join_with_operator_reads_all:
  "map endpointId (requestsCollection server3) = [''e1'', ''e2'']
   \<and> rooms server3 ''e1'' = [] \<and> rooms server3 ''e2'' = []
   \<and> solo [True, True, True, True] (Join 9 not_null) server3
     = (emit 9 (InitRequests [formatted (data (post ''e2'' 2 2 2000)),
                              formatted (data (post ''e1'' 1 1 1000))]) server3,
        [Finished])"
  by (simp add: solo_Cons not_null_def endpointExists_def recentRequests_def server3_def
      server0_def post_def data_def emit_def ex_disj_distrib)


end
